theory Spec2Isabelle
  imports Complex_Main "HOL-Library.Word"
begin

unbundle bit_operations_syntax

section \<open>Single-precision values\<close>

text \<open>
  The C++ type \<^verbatim>\<open>float\<close> of \<^verbatim>\<open>tangents.cpp\<close>. A value is a finite number, one of the
  two infinities, or a NaN. The special values follow IEEE 754: a NaN propagates through
  every operation and compares false with everything, \<open>inf - inf\<close>, \<open>0 * inf\<close>,
  \<open>0 / 0\<close> and \<open>inf / inf\<close> are NaN. Finite values carry exact reals: rounding
  to 24 bits, overflow of a finite result to an infinity, underflow and the sign of zero
  are not modelled (a zero divisor counts as \<open>+0\<close>).
\<close>

datatype float = Fin real | PInf | NInf | NaN

instantiation float :: "{plus, minus, uminus, times, inverse, abs, ord}"
begin

fun plus_float :: "float \<Rightarrow> float \<Rightarrow> float" where
  "plus_float NaN _ = NaN"
| "plus_float _ NaN = NaN"
| "plus_float (Fin a) (Fin b) = Fin (a + b)"
| "plus_float PInf NInf = NaN"
| "plus_float NInf PInf = NaN"
| "plus_float PInf _ = PInf"
| "plus_float _ PInf = PInf"
| "plus_float NInf _ = NInf"
| "plus_float _ NInf = NInf"

fun uminus_float :: "float \<Rightarrow> float" where
  "uminus_float (Fin a) = Fin (- a)"
| "uminus_float PInf = NInf"
| "uminus_float NInf = PInf"
| "uminus_float NaN = NaN"

definition minus_float :: "float \<Rightarrow> float \<Rightarrow> float" where
  "minus_float x y = x + (- y)"

fun times_float :: "float \<Rightarrow> float \<Rightarrow> float" where
  "times_float NaN _ = NaN"
| "times_float _ NaN = NaN"
| "times_float (Fin a) (Fin b) = Fin (a * b)"
| "times_float (Fin a) PInf = (if a = 0 then NaN else if 0 < a then PInf else NInf)"
| "times_float (Fin a) NInf = (if a = 0 then NaN else if 0 < a then NInf else PInf)"
| "times_float PInf (Fin b) = (if b = 0 then NaN else if 0 < b then PInf else NInf)"
| "times_float NInf (Fin b) = (if b = 0 then NaN else if 0 < b then NInf else PInf)"
| "times_float PInf PInf = PInf"
| "times_float PInf NInf = NInf"
| "times_float NInf PInf = NInf"
| "times_float NInf NInf = PInf"

fun divide_float :: "float \<Rightarrow> float \<Rightarrow> float" where
  "divide_float NaN _ = NaN"
| "divide_float _ NaN = NaN"
| "divide_float (Fin a) (Fin b) =
     (if b = 0 then (if a = 0 then NaN else if 0 < a then PInf else NInf)
      else Fin (a / b))"
| "divide_float (Fin a) PInf = Fin 0"
| "divide_float (Fin a) NInf = Fin 0"
| "divide_float PInf (Fin b) = (if 0 \<le> b then PInf else NInf)"
| "divide_float NInf (Fin b) = (if 0 \<le> b then NInf else PInf)"
| "divide_float PInf PInf = NaN"
| "divide_float PInf NInf = NaN"
| "divide_float NInf PInf = NaN"
| "divide_float NInf NInf = NaN"

definition inverse_float :: "float \<Rightarrow> float" where
  "inverse_float x = divide (Fin 1) x"

fun abs_float :: "float \<Rightarrow> float" where
  "abs_float (Fin a) = Fin \<bar>a\<bar>"
| "abs_float PInf = PInf"
| "abs_float NInf = PInf"
| "abs_float NaN = NaN"

fun less_float :: "float \<Rightarrow> float \<Rightarrow> bool" where
  "less_float NaN _ = False"
| "less_float _ NaN = False"
| "less_float (Fin a) (Fin b) = (a < b)"
| "less_float _ NInf = False"
| "less_float NInf _ = True"
| "less_float PInf _ = False"
| "less_float _ PInf = True"

fun less_eq_float :: "float \<Rightarrow> float \<Rightarrow> bool" where
  "less_eq_float NaN _ = False"
| "less_eq_float _ NaN = False"
| "less_eq_float (Fin a) (Fin b) = (a \<le> b)"
| "less_eq_float NInf _ = True"
| "less_eq_float _ PInf = True"
| "less_eq_float _ NInf = False"
| "less_eq_float PInf _ = False"

instance ..

end

text \<open>The C++ operator \<^verbatim>\<open>!=\<close> on floats: true as soon as one side is a NaN.\<close>

definition neq_float :: "float \<Rightarrow> float \<Rightarrow> bool" where
  "neq_float x y = (x = NaN \<or> y = NaN \<or> x \<noteq> y)"

text \<open>The casts \<^verbatim>\<open>(float)i\<close> of an \<^verbatim>\<open>int\<close> and of a \<^verbatim>\<open>uint32_t\<close>.\<close>

definition float_of_int :: "int \<Rightarrow> float" where
  "float_of_int i = Fin (of_int i)"

definition float_of_u32 :: "32 word \<Rightarrow> float" where
  "float_of_u32 w = Fin (of_nat (unat w))"

text \<open>
  The cast \<^verbatim>\<open>(int)x\<close>: truncation towards zero. For a NaN, an infinity or a value
  outside the range of \<^verbatim>\<open>int\<close> C++ leaves the result undefined; the model takes what
  the conversion instruction of the hardware target (ARM Cortex-M7) does: NaN gives 0
  and everything else saturates.
\<close>

definition int_of_float :: "float \<Rightarrow> int" where
  "int_of_float x =
     (case x of
        Fin r \<Rightarrow> max (- (2 ^ 31)) (min (2 ^ 31 - 1) (if 0 \<le> r then \<lfloor>r\<rfloor> else \<lceil>r\<rceil>))
      | PInf \<Rightarrow> 2 ^ 31 - 1
      | NInf \<Rightarrow> - (2 ^ 31)
      | NaN \<Rightarrow> 0)"

text \<open>The functions of \<^verbatim>\<open>math.h\<close> that the filter calls.\<close>

definition expf :: "float \<Rightarrow> float" where
  "expf x = (case x of Fin r \<Rightarrow> Fin (exp r) | PInf \<Rightarrow> PInf | NInf \<Rightarrow> Fin 0 | NaN \<Rightarrow> NaN)"

definition tanf :: "float \<Rightarrow> float" where
  "tanf x = (case x of Fin r \<Rightarrow> Fin (tan r) | PInf \<Rightarrow> NaN | NInf \<Rightarrow> NaN | NaN \<Rightarrow> NaN)"

text \<open>\<^verbatim>\<open>powf(2.0f, y)\<close>, the only use of \<^verbatim>\<open>powf\<close> in the audio path.\<close>

definition powf2 :: "float \<Rightarrow> float" where
  "powf2 y = (case y of Fin r \<Rightarrow> Fin (2 powr r) | PInf \<Rightarrow> PInf | NInf \<Rightarrow> Fin 0 | NaN \<Rightarrow> NaN)"

text \<open>
  \<^verbatim>\<open>M_PI\<close> of \<^verbatim>\<open>math.h\<close> (the file defines it itself where the header does not): the
  model takes the real number \<open>pi\<close> for its decimal expansion.
\<close>

definition M_PI :: float where
  "M_PI = Fin pi"

definition DEFAULT_OVERSAMPLE :: int where
  "DEFAULT_OVERSAMPLE = 2"


section \<open>Algorithm data structures\<close>

text \<open>\<^verbatim>\<open>struct _tangentsAlgorithm_DTC\<close>.\<close>

record DTC =
  lp :: float
  bp :: float
  hp :: float
  g :: float
  k :: float
  gInv :: float
  cutoffSmooth :: float
  resonanceSmooth :: float
  driveSmooth :: float
  agrSmooth :: float
  cvCutoffAmtSmooth :: float
  cvResAmtSmooth :: float
  randState :: "32 word"
  inputLevel :: float
  outputLevel :: float

text \<open>The parameter values \<^verbatim>\<open>v[]\<close> that the host keeps, one field for each index of the enum.\<close>

record params =
  kParamInput :: int
  kParamOutput :: int
  kParamOutputMode :: int
  kParamCutoff :: int
  kParamResonance :: int
  kParamMode :: int
  kParamModel :: int
  kParamCvCutoff :: int
  kParamCvCutoffAmt :: int
  kParamCvResonance :: int
  kParamCvResonanceAmt :: int
  kParamInputAGR :: int
  kParamDrive :: int
  kParamOversample :: int

text \<open>\<^verbatim>\<open>struct _tangentsAlgorithm\<close>: the host's parameter values, the DTC block and a cached value.\<close>

record algorithm =
  v :: params
  dtc :: DTC
  sampleRateRecip :: float


section \<open>Helper functions\<close>

definition fastTanh :: "float \<Rightarrow> float" where
  "fastTanh x =
     (if Fin 3 < x then Fin 1
      else if x < Fin (- 3) then Fin (- 1)
      else let x2 = x * x in x * (Fin 27 + x2) / (Fin 27 + Fin 9 * x2))"

definition diodeClip :: "float \<Rightarrow> float" where
  "diodeClip x =
     (if Fin 0 < x then Fin 1 - expf (- x)
      else Fin (- 0.5) * (Fin 1 - expf (Fin 2 * x)))"

definition aggressiveSat :: "float \<Rightarrow> float" where
  "aggressiveSat x0 =
     (let x = fastTanh (x0 * Fin 2) in
      if Fin 0.8 < \<bar>x\<bar> then
        let excess = \<bar>x\<bar> - Fin 0.8
        in (if Fin 0 < x then Fin 1 else Fin (- 1)) * (Fin 0.8 - excess * Fin 0.5)
      else x)"

definition sanitize :: "float \<Rightarrow> float" where
  "sanitize x =
     (if neq_float x x \<or> Fin 10000000000 < x \<or> x < Fin (- 10000000000) then Fin 0 else x)"

definition softClamp :: "float \<Rightarrow> float \<Rightarrow> float" where
  "softClamp x limit =
     (if limit < x then limit else if x < - limit then - limit else x)"

text \<open>
  \<^verbatim>\<open>fastRandom\<close> updates the state through its reference parameter; the model returns the
  value together with the new state.
\<close>

definition xorshift :: "32 word \<Rightarrow> 32 word" where
  "xorshift state =
     (let s1 = state XOR push_bit 13 state;
          s2 = s1 XOR drop_bit 17 s1
      in s2 XOR push_bit 5 s2)"

definition fastRandom :: "32 word \<Rightarrow> float \<times> 32 word" where
  "fastRandom state =
     (let state' = xorshift state
      in (float_of_u32 (state' AND 0x7FFFFFFF) / float_of_int 0x7FFFFFFF, state'))"

text \<open>The three zones of \<^verbatim>\<open>processAGR\<close>, one definition for each branch.\<close>

definition agr_randomization :: "int \<Rightarrow> 32 word \<Rightarrow> float \<times> 32 word" where
  "agr_randomization agrValue rs =
     (let randomMix = Fin 1 - float_of_int agrValue / Fin 25;
          baseGain = float_of_int agrValue / Fin 50;
          (randomGain, rs') = fastRandom rs
      in (baseGain + randomGain * randomMix, rs'))"

definition agr_attenuation :: "int \<Rightarrow> float" where
  "agr_attenuation agrValue =
     (let t = float_of_int (agrValue - 25) / Fin 25 in Fin 0.5 + t * Fin 0.5)"

definition agr_amplification :: "int \<Rightarrow> float" where
  "agr_amplification agrValue =
     (let t = float_of_int (agrValue - 50) / Fin 50 in Fin 1 + t * Fin 3)"

definition processAGR :: "int \<Rightarrow> 32 word \<Rightarrow> float \<times> 32 word" where
  "processAGR agrValue rs =
     (if agrValue \<le> 25 then agr_randomization agrValue rs
      else if agrValue \<le> 50 then (agr_attenuation agrValue, rs)
      else (agr_amplification agrValue, rs))"

definition calculateFilterCoeffs :: "DTC \<Rightarrow> float \<Rightarrow> float \<Rightarrow> float \<Rightarrow> DTC" where
  "calculateFilterCoeffs d cutoff0 resonance sampleRate =
     (let cutoff1 = (if cutoff0 < Fin 20 then Fin 20 else cutoff0);
          cutoff = (if sampleRate * Fin 0.45 < cutoff1 then sampleRate * Fin 0.45 else cutoff1);
          g' = tanf (M_PI * cutoff / sampleRate);
          k' = Fin 2 - resonance * Fin 1.9
      in d\<lparr>g := g', k := k', gInv := Fin 1 / (Fin 1 + g' * (g' + k'))\<rparr>)"


section \<open>Factory functions\<close>

text \<open>
  \<^verbatim>\<open>construct\<close>: the DTC block is cleared (\<^verbatim>\<open>memset\<close> to zero bytes: every float is
  \<open>0.0\<close>), then the seed, the smoothed defaults and a first set of coefficients are stored.
  The parameter values are the host's; \<open>sampleRate\<close> is \<^verbatim>\<open>NT_globals.sampleRate\<close>.
\<close>

definition zero_DTC :: DTC where
  "zero_DTC =
     \<lparr>lp = Fin 0, bp = Fin 0, hp = Fin 0, g = Fin 0, k = Fin 0, gInv = Fin 0,
      cutoffSmooth = Fin 0, resonanceSmooth = Fin 0, driveSmooth = Fin 0, agrSmooth = Fin 0,
      cvCutoffAmtSmooth = Fin 0, cvResAmtSmooth = Fin 0, randState = 0,
      inputLevel = Fin 0, outputLevel = Fin 0\<rparr>"

definition construct :: "float \<Rightarrow> params \<Rightarrow> algorithm" where
  "construct sampleRate vs =
     (let d = zero_DTC
            \<lparr>randState := 0x12345678,
             cutoffSmooth := Fin 1000,
             resonanceSmooth := Fin 0,
             driveSmooth := Fin 1,
             agrSmooth := Fin 50,
             cvCutoffAmtSmooth := Fin 1,
             cvResAmtSmooth := Fin 1\<rparr>
      in \<lparr>v = vs,
          dtc = calculateFilterCoeffs d (Fin 1000) (Fin 0)
                  (sampleRate * float_of_int DEFAULT_OVERSAMPLE),
          sampleRateRecip = Fin 1 / sampleRate\<rparr>)"


section \<open>The audio callback\<close>

text \<open>
  The values that \<^verbatim>\<open>step\<close> computes before its per-sample loop and only reads inside it:
  the bus pointers (offsets into \<^verbatim>\<open>busFrames\<close>), the selectors and the resonance amount.
\<close>

record step_locals =
  numFrames :: int
  in_ptr :: int
  out_ptr :: int
  replace :: bool
  mode :: int
  model :: int
  oversample :: int
  resAmt :: float

text \<open>The model switch in front of the filter (lines 514 to 530).\<close>

definition input_saturation :: "int \<Rightarrow> float \<Rightarrow> float \<Rightarrow> float" where
  "input_saturation md input ra =
     (if md = 0 then fastTanh (input * (Fin 1 + ra))
      else if md = 1 then diodeClip (input * (Fin 1 + ra * Fin 0.5))
      else if md = 2 then aggressiveSat (input * (Fin 1 + ra * Fin 2))
      else fastTanh input)"

text \<open>The mode switch that accumulates the output (lines 553 to 567); it has no default branch.\<close>

definition accumulate :: "int \<Rightarrow> float \<Rightarrow> float \<Rightarrow> float \<Rightarrow> float \<Rightarrow> float" where
  "accumulate mo output lp' bp' hp' =
     (if mo = 0 then output + lp'
      else if mo = 1 then output + bp'
      else if mo = 2 then output + hp'
      else if mo = 3 then output + (lp' - hp')
      else output)"

text \<open>The model switch of the output stage (lines 577 to 590).\<close>

definition output_saturation :: "int \<Rightarrow> float \<Rightarrow> float" where
  "output_saturation md output =
     (if md = 0 then fastTanh output
      else if md = 1 then diodeClip output
      else if md = 2 then aggressiveSat output
      else fastTanh output)"

text \<open>
  The body of the oversampling loop (lines 510 to 567), on the DTC block and the
  accumulator \<^verbatim>\<open>output\<close>.
\<close>

definition oversample_body :: "int \<Rightarrow> int \<Rightarrow> float \<Rightarrow> float \<Rightarrow> DTC \<times> float \<Rightarrow> DTC \<times> float" where
  "oversample_body mo md input ra = (\<lambda>(d, output).
     let u = input_saturation md input ra;
         hp1 = (u - k d * bp d - lp d) * gInv d;
         bp1 = g d * hp1 + bp d;
         lp1 = g d * bp1 + lp d;
         bp2 = softClamp bp1 (Fin 5);
         lp2 = softClamp lp1 (Fin 5);
         d' = d\<lparr>bp := sanitize bp2, lp := sanitize lp2, hp := sanitize hp1\<rparr>
     in (d', accumulate mo output lp2 bp2 hp1))"

text \<open>\<^verbatim>\<open>for (int os = 0; os < oversample; ++os)\<close>: the body, \<open>n\<close> times.\<close>

fun oversample_loop :: "nat \<Rightarrow> (DTC \<times> float \<Rightarrow> DTC \<times> float) \<Rightarrow> DTC \<times> float \<Rightarrow> DTC \<times> float" where
  "oversample_loop 0 body s = s"
| "oversample_loop (Suc n) body s = oversample_loop n body (body s)"

text \<open>
  One iteration of the per-sample loop without its bus accesses and level tracking
  (lines 495 to 590): from the sample read from the input bus and the DTC block to the
  new DTC block, the conditioned input and the output sample.
\<close>

definition process_sample :: "step_locals \<Rightarrow> float \<Rightarrow> DTC \<Rightarrow> DTC \<times> float \<times> float" where
  "process_sample L x d =
     (let (agrGain, rs) = processAGR (int_of_float (agrSmooth d)) (randState d);
          d1 = d\<lparr>randState := rs\<rparr>;
          input = x * agrGain * driveSmooth d1;
          (d2, acc) = oversample_loop (nat (oversample L))
                        (oversample_body (mode L) (model L) input (resAmt L)) (d1, Fin 0);
          avg = acc / float_of_int (oversample L);
          output = output_saturation (model L) (sanitize avg)
      in (d2, input, output))"

text \<open>The state of the per-sample loop: the DTC block, the bus memory and the two peaks.\<close>

record loop_state =
  ls_dtc :: DTC
  ls_bus :: "int \<Rightarrow> float"
  maxIn :: float
  maxOut :: float

definition frame_body :: "step_locals \<Rightarrow> int \<Rightarrow> loop_state \<Rightarrow> loop_state" where
  "frame_body L i s =
     (let (d', input, output) = process_sample L (ls_bus s (in_ptr L + i)) (ls_dtc s);
          absIn = \<bar>input\<bar>;
          maxIn' = (if maxIn s < absIn then absIn else maxIn s);
          absOut = \<bar>output\<bar>;
          maxOut' = (if maxOut s < absOut then absOut else maxOut s);
          out_i = (if replace L then output else ls_bus s (out_ptr L + i) + output)
      in \<lparr>ls_dtc = d', ls_bus = (ls_bus s)(out_ptr L + i := out_i),
          maxIn = maxIn', maxOut = maxOut'\<rparr>)"

text \<open>\<^verbatim>\<open>for (int i = 0; i < numFrames; ++i)\<close>: \<open>n\<close> iterations from index \<open>i\<close> on.\<close>

fun frame_loop :: "step_locals \<Rightarrow> int \<Rightarrow> nat \<Rightarrow> loop_state \<Rightarrow> loop_state" where
  "frame_loop L i 0 s = s"
| "frame_loop L i (Suc n) s = frame_loop L (i + 1) n (frame_body L i s)"

text \<open>
  \<^verbatim>\<open>step\<close> up to its per-sample loop (lines 417 to 489): the parameters are read, the
  controls are smoothed, the coefficients are computed. \<open>sampleRate\<close> is
  \<^verbatim>\<open>NT_globals.sampleRate\<close>. The parameter \<^verbatim>\<open>Oversample\<close> is declared with the range 0 to 4;
  outside it the shift \<^verbatim>\<open>1 << osParam\<close> is taken on unbounded integers.
\<close>

definition step_prepare :: "float \<Rightarrow> algorithm \<Rightarrow> (int \<Rightarrow> float) \<Rightarrow> int \<Rightarrow> DTC \<times> step_locals" where
  "step_prepare sampleRate pThis busFrames numFramesBy4 =
     (let d0 = dtc pThis;
          p = v pThis;
          nf = numFramesBy4 * 4;
          inp = (kParamInput p - 1) * nf;
          outp = (kParamOutput p - 1) * nf;
          cvCutoff = (if kParamCvCutoff p > 0 then Some ((kParamCvCutoff p - 1) * nf) else None);
          cvResonance =
            (if kParamCvResonance p > 0 then Some ((kParamCvResonance p - 1) * nf) else None);
          baseCutoff = float_of_int (kParamCutoff p);
          baseResonance = float_of_int (kParamResonance p) / Fin 1000;
          cvCutoffAmtTarget = float_of_int (kParamCvCutoffAmt p) / Fin 1000;
          cvResAmtTarget = float_of_int (kParamCvResonanceAmt p) / Fin 1000;
          agrTarget = float_of_int (kParamInputAGR p) / Fin 10;
          driveTarget = Fin 1 + float_of_int (kParamDrive p) / Fin 250;
          osParam = kParamOversample p;
          os = push_bit (nat osParam) 1;
          oversampleRate = sampleRate * float_of_int os;
          smoothCoeff = Fin 0.1;
          d1 = d0\<lparr>driveSmooth := driveSmooth d0 + (driveTarget - driveSmooth d0) * smoothCoeff\<rparr>;
          d2 = d1\<lparr>agrSmooth := agrSmooth d1 + (agrTarget - agrSmooth d1) * smoothCoeff\<rparr>;
          d3 = d2\<lparr>cvCutoffAmtSmooth :=
                   cvCutoffAmtSmooth d2 + (cvCutoffAmtTarget - cvCutoffAmtSmooth d2) * smoothCoeff\<rparr>;
          d4 = d3\<lparr>cvResAmtSmooth :=
                   cvResAmtSmooth d3 + (cvResAmtTarget - cvResAmtSmooth d3) * smoothCoeff\<rparr>;
          cutoff =
            (case cvCutoff of
               None \<Rightarrow> baseCutoff
             | Some a \<Rightarrow>
                 let cvVal = busFrames a * cvCutoffAmtSmooth d4
                 in baseCutoff * powf2 (cvVal * Fin 5));
          resonance =
            (case cvResonance of
               None \<Rightarrow> baseResonance
             | Some a \<Rightarrow>
                 let cvVal = busFrames a * cvResAmtSmooth d4;
                     r1 = baseResonance + cvVal * Fin 0.5;
                     r2 = (if r1 < Fin 0 then Fin 0 else r1)
                 in (if Fin 1 < r2 then Fin 1 else r2));
          d5 = d4\<lparr>cutoffSmooth := cutoffSmooth d4 + (cutoff - cutoffSmooth d4) * smoothCoeff\<rparr>;
          d6 = d5\<lparr>resonanceSmooth :=
                   resonanceSmooth d5 + (resonance - resonanceSmooth d5) * smoothCoeff\<rparr>;
          d7 = calculateFilterCoeffs d6 (cutoffSmooth d6) (resonanceSmooth d6) oversampleRate;
          ra = (Fin 2 - k d7) / Fin 1.9
      in (d7,
          \<lparr>numFrames = nf, in_ptr = inp, out_ptr = outp,
           replace = (kParamOutputMode p \<noteq> 0),
           mode = kParamMode p, model = kParamModel p, oversample = os, resAmt = ra\<rparr>))"

text \<open>
  \<^verbatim>\<open>step\<close>: the preparation, the per-sample loop from peaks \<open>0.0\<close>, and the level meters
  (lines 604 and 605). It returns the instance and the bus memory.
\<close>

definition step :: "float \<Rightarrow> algorithm \<Rightarrow> (int \<Rightarrow> float) \<Rightarrow> int \<Rightarrow> algorithm \<times> (int \<Rightarrow> float)" where
  "step sampleRate pThis busFrames numFramesBy4 =
     (let (d, L) = step_prepare sampleRate pThis busFrames numFramesBy4;
          s = frame_loop L 0 (nat (numFrames L))
                \<lparr>ls_dtc = d, ls_bus = busFrames, maxIn = Fin 0, maxOut = Fin 0\<rparr>;
          e1 = ls_dtc s;
          e2 = e1\<lparr>inputLevel := inputLevel e1 * Fin 0.95 + maxIn s * Fin 0.05\<rparr>;
          e3 = e2\<lparr>outputLevel := outputLevel e2 * Fin 0.95 + maxOut s * Fin 0.05\<rparr>
      in (pThis\<lparr>dtc := e3\<rparr>, ls_bus s))"

text \<open>
  A run of the plugin: the host calls \<^verbatim>\<open>step\<close> once for each block, with the block's
  parameter values, bus memory and size. The run returns the instance after the last
  block and the bus memory that each call left.
\<close>

record block =
  blk_params :: params
  blk_bus :: "int \<Rightarrow> float"
  blk_numFramesBy4 :: int

fun run_blocks :: "float \<Rightarrow> algorithm \<Rightarrow> block list \<Rightarrow> algorithm \<times> (int \<Rightarrow> float) list" where
  "run_blocks sampleRate pThis [] = (pThis, [])"
| "run_blocks sampleRate pThis (b # bs) =
     (let (pThis', bus') = step sampleRate (pThis\<lparr>v := blk_params b\<rparr>) (blk_bus b) (blk_numFramesBy4 b);
          (pThis'', buses) = run_blocks sampleRate pThis' bs
      in (pThis'', bus' # buses))"


section \<open>Values for concrete runs\<close>

text \<open>
  Parameter values for concrete runs: the defaults of the parameter table (input bus 1,
  output bus 13, cutoff 1000 Hz, no resonance, lowpass, model YU, no CV bus, AGR at
  unity, no drive, 2x oversampling), with the output replacing the bus; and an instance
  built from them at 48 kHz.
\<close>

definition example_params :: params where
  "example_params =
     \<lparr>kParamInput = 1, kParamOutput = 13, kParamOutputMode = 1, kParamCutoff = 1000,
      kParamResonance = 0, kParamMode = 0, kParamModel = 0, kParamCvCutoff = 0,
      kParamCvCutoffAmt = 1000, kParamCvResonance = 0, kParamCvResonanceAmt = 1000,
      kParamInputAGR = 500, kParamDrive = 0, kParamOversample = 1\<rparr>"

definition example_instance :: algorithm where
  "example_instance = construct (Fin 48000) example_params"

text \<open>
  Locals and a DTC block for single samples: cutoff at a quarter of the rate (\<open>g = 1\<close>),
  no resonance (\<open>k = 2\<close>, so \<open>gInv = 1 / 4\<close> and the resonance amount is \<open>0\<close>),
  AGR at unity, no drive, lowpass, model YU, no oversampling.
\<close>

definition example_locals :: step_locals where
  "example_locals =
     \<lparr>numFrames = 4, in_ptr = 0, out_ptr = 48, replace = True, mode = 0, model = 0,
      oversample = 1, resAmt = Fin 0\<rparr>"

definition example_dtc :: DTC where
  "example_dtc =
     zero_DTC\<lparr>g := Fin 1, k := Fin 2, gInv := Fin 0.25, driveSmooth := Fin 1,
              agrSmooth := Fin 50, randState := 0x12345678\<rparr>"


section \<open>The silence scenario\<close>

text \<open>
  A block is silent when its input bus holds \<open>0.0\<close> at every frame. After a silent block
  the bus memory is expected to hold \<open>0.0\<close> on the output bus when the output replaces
  the bus, and to be as before everywhere else (adding \<open>0.0\<close> changes nothing).
\<close>

definition silent_input :: "block \<Rightarrow> bool" where
  "silent_input b =
     (\<forall>j. 0 \<le> j \<and> j < blk_numFramesBy4 b * 4 \<longrightarrow>
        blk_bus b ((kParamInput (blk_params b) - 1) * (blk_numFramesBy4 b * 4) + j) = Fin 0)"

definition silent_output :: "block \<Rightarrow> int \<Rightarrow> float" where
  "silent_output b =
     (\<lambda>x. if kParamOutputMode (blk_params b) \<noteq> 0
             \<and> (kParamOutput (blk_params b) - 1) * (blk_numFramesBy4 b * 4) \<le> x
             \<and> x < (kParamOutput (blk_params b) - 1) * (blk_numFramesBy4 b * 4)
                   + blk_numFramesBy4 b * 4
           then Fin 0 else blk_bus b x)"

text \<open>Two silent blocks: the second one in bandpass mode with model XX, other buses at 1.\<close>

definition silent_blocks :: "block list" where
  "silent_blocks =
     [\<lparr>blk_params = example_params, blk_bus = (\<lambda>x. Fin 0), blk_numFramesBy4 = 1\<rparr>,
      \<lparr>blk_params = example_params\<lparr>kParamMode := 1, kParamModel := 2\<rparr>,
       blk_bus = (\<lambda>x. if x < 8 then Fin 0 else Fin 1), blk_numFramesBy4 = 2\<rparr>]"

text \<open>
  Values that are \<open>0.0\<close> or NaN: what the filter computes from a zero input when a
  coefficient or a gain is not finite. The filter is at rest when its three outputs are
  \<open>0.0\<close>.
\<close>

definition zero_or_nan :: "float \<Rightarrow> bool" where
  "zero_or_nan x = (x = Fin 0 \<or> x = NaN)"

definition at_rest :: "DTC \<Rightarrow> bool" where
  "at_rest d = (lp d = Fin 0 \<and> bp d = Fin 0 \<and> hp d = Fin 0)"


text \<open>The three coefficients of a DTC block.\<close>

definition coeffs :: "DTC \<Rightarrow> float \<times> float \<times> float" where
  "coeffs d = (g d, k d, gInv d)"


section \<open>Single-precision rounding\<close>

text \<open>
  The arithmetic above is exact, which is enough where rounding cannot change the
  property (the envelope of the output sample, silence, the defaults of the selectors).
  For the bounds of the saturation functions themselves the rounding of binary32
  matters, so the three functions are given a second time with every operation rounded
  as IEEE 754 prescribes: to the nearest number with a 24-bit significand, ties to the
  even significand, with the subnormal numbers below \<open>2 powr (- 126)\<close> and overflow
  to an infinity from \<open>2 ^ 128\<close> on.

  \<open>rne\<close> rounds a real to the nearest integer, ties to even; \<open>expo32\<close> is the
  binary exponent of a value, held at \<open>-126\<close> for the subnormal range; \<open>quantum\<close> is
  the distance of neighbouring binary32 numbers around a value.
\<close>

definition rne :: "real \<Rightarrow> int" where
  "rne r =
     (let f = \<lfloor>r\<rfloor>; d = r - of_int f
      in if d < 1 / 2 then f else if 1 / 2 < d then f + 1 else if even f then f else f + 1)"

definition expo32 :: "real \<Rightarrow> int" where
  "expo32 t = max \<lfloor>log 2 \<bar>t\<bar>\<rfloor> (- 126)"

definition round32 :: "real \<Rightarrow> real" where
  "round32 t =
     (if t = 0 then 0
      else let q = 2 powr of_int (expo32 t - 23) in q * of_int (rne (t / q)))"

definition quantum :: "real \<Rightarrow> real" where
  "quantum t = 2 powr of_int (expo32 t - 23)"

text \<open>
  \<open>rnd\<close> is the rounding of the result of one float operation: the operation is taken
  exactly (with the special values as above) and then rounded.
\<close>

definition fround :: "real \<Rightarrow> float" where
  "fround t =
     (let r = round32 t
      in if 2 ^ 128 \<le> \<bar>r\<bar> then (if 0 < r then PInf else NInf) else Fin r)"

definition rnd :: "float \<Rightarrow> float" where
  "rnd x = (case x of Fin r \<Rightarrow> fround r | PInf \<Rightarrow> PInf | NInf \<Rightarrow> NInf | NaN \<Rightarrow> NaN)"

text \<open>
  \<^verbatim>\<open>expf\<close> of the C library, taken as the correctly rounded exponential. The constant
  \<^verbatim>\<open>0.8f\<close> is \<open>13421773 / 2 ^ 24\<close>; the other constants of the three functions are
  binary32 numbers as they are written.
\<close>

definition expf32 :: "float \<Rightarrow> float" where
  "expf32 x = rnd (expf x)"

definition c08 :: real where
  "c08 = 13421773 / 16777216"

text \<open>
  \<^verbatim>\<open>fastTanh\<close>, \<^verbatim>\<open>diodeClip\<close> and \<^verbatim>\<open>aggressiveSat\<close> in binary32: each product, sum,
  difference and quotient of the source is rounded on its own.
\<close>

definition fastTanh32 :: "float \<Rightarrow> float" where
  "fastTanh32 x =
     (if Fin 3 < x then Fin 1
      else if x < Fin (- 3) then Fin (- 1)
      else let x2 = rnd (x * x)
           in rnd (rnd (x * rnd (Fin 27 + x2)) / rnd (Fin 27 + rnd (Fin 9 * x2))))"

definition diodeClip32 :: "float \<Rightarrow> float" where
  "diodeClip32 x =
     (if Fin 0 < x then rnd (Fin 1 - expf32 (- x))
      else rnd (Fin (- 0.5) * rnd (Fin 1 - expf32 (rnd (Fin 2 * x)))))"

definition aggressiveSat32 :: "float \<Rightarrow> float" where
  "aggressiveSat32 x0 =
     (let x = fastTanh32 (rnd (x0 * Fin 2)) in
      if Fin c08 < \<bar>x\<bar> then
        let excess = rnd (\<bar>x\<bar> - Fin c08)
        in rnd ((if Fin 0 < x then Fin 1 else Fin (- 1)) * rnd (Fin c08 - rnd (excess * Fin 0.5)))
      else x)"

text \<open>The numerator and the denominator of \<open>fastTanh32\<close> on a finite argument.\<close>

definition tanh32_num :: "real \<Rightarrow> real" where
  "tanh32_num x = round32 (x * round32 (27 + round32 (x * x)))"

definition tanh32_den :: "real \<Rightarrow> real" where
  "tanh32_den x = round32 (27 + round32 (9 * round32 (x * x)))"


section \<open>The saturation functions on finite values\<close>

lemma fastTanh_Fin:
  "fastTanh (Fin x) = Fin (if 3 < x then 1 else if x < - 3 then - 1
                           else x * (27 + x * x) / (27 + 9 * (x * x)))"
proof -
  have "27 + 9 * (x * x) \<noteq> 0"
    using zero_le_square [of x] by linarith
  then show ?thesis
    by (simp add: fastTanh_def Let_def)
qed

lemma tanh_poly_bound:
  fixes x :: real
  assumes "- 3 \<le> x" "x \<le> 3"
  shows "\<bar>x * (27 + x * x) / (27 + 9 * (x * x))\<bar> \<le> 1"
proof -
  have pos: "0 < 27 + 9 * (x * x)"
    using zero_le_square [of x] by linarith
  have up: "(x - 3) * ((x - 3) * (x - 3)) \<le> 0"
    using assms by (intro mult_nonpos_nonneg) simp_all
  have lo: "0 \<le> (x + 3) * ((x + 3) * (x + 3))"
    using assms by (intro mult_nonneg_nonneg) simp_all
  have "x * (27 + x * x) \<le> 27 + 9 * (x * x)"
    using up by (simp add: algebra_simps)
  moreover have "- (27 + 9 * (x * x)) \<le> x * (27 + x * x)"
    using lo by (simp add: algebra_simps)
  ultimately have "\<bar>x * (27 + x * x)\<bar> \<le> 27 + 9 * (x * x)"
    by linarith
  then show ?thesis
    using pos by (simp add: abs_if divide_simps split: if_splits)
qed

lemma fastTanh_bound: "\<exists>y. fastTanh (Fin x) = Fin y \<and> \<bar>y\<bar> \<le> 1"
  using tanh_poly_bound [of x] by (simp add: fastTanh_Fin)

lemma diodeClip_Fin:
  "diodeClip (Fin x) = Fin (if 0 < x then 1 - exp (- x) else - 0.5 * (1 - exp (2 * x)))"
  by (simp add: diodeClip_def expf_def minus_float_def)

lemma diodeClip_range:
  fixes e :: real
  assumes "0 < e" "e \<le> 1"
  shows "- 0.5 < - 0.5 * (1 - e)" "- 0.5 * (1 - e) < 1"
  using assms by (simp_all add: algebra_simps)

lemma diodeClip_bound: "\<exists>y. diodeClip (Fin x) = Fin y \<and> - 0.5 < y \<and> y < 1"
proof (cases "0 < x")
  case True
  define e where "e = exp (- x)"
  have "0 < e" "e < 1" using True by (simp_all add: e_def)
  then have "- 0.5 < 1 - e \<and> 1 - e < 1" by simp
  then show ?thesis using True by (simp add: diodeClip_Fin e_def)
next
  case False
  define e where "e = exp (2 * x)"
  have "0 < e" "e \<le> 1" using False by (simp_all add: e_def)
  then have "- 0.5 < - 0.5 * (1 - e) \<and> - 0.5 * (1 - e) < 1"
    using diodeClip_range [of e] by blast
  then show ?thesis using False by (simp add: diodeClip_Fin e_def)
qed

lemma aggressiveSat_bound: "\<exists>y. aggressiveSat (Fin x) = Fin y \<and> \<bar>y\<bar> \<le> 0.8"
proof -
  obtain t where t: "fastTanh (Fin x * Fin 2) = Fin t" "\<bar>t\<bar> \<le> 1"
    using fastTanh_bound [of "x * 2"] by auto
  show ?thesis
    using t by (auto simp add: aggressiveSat_def Let_def minus_float_def abs_if split: if_splits)
qed


section \<open>Sanitize\<close>

lemma sanitize_cases:
  "sanitize x =
     (case x of
        Fin r \<Rightarrow> if 10000000000 < r \<or> r < - 10000000000 then Fin 0 else Fin r
      | _ \<Rightarrow> Fin 0)"
  by (cases x) (simp_all add: sanitize_def neq_float_def)

lemma sanitize_finite: "\<exists>r. sanitize x = Fin r \<and> \<bar>r\<bar> \<le> 10000000000"
  by (cases x) (auto simp add: sanitize_cases)

text \<open>
  Claim C5. \<open>sanitize\<close> is idempotent on every value, finite or not; it sends NaN, both
  infinities and \<open>1e20\<close> to \<open>0\<close>, and returns a finite value of magnitude at most
  \<open>1e10\<close> unchanged.
\<close>

theorem sanitize_idempotent:
  "sanitize (sanitize x) = sanitize x
   \<and> sanitize NaN = Fin 0 \<and> sanitize PInf = Fin 0 \<and> sanitize NInf = Fin 0
   \<and> sanitize (Fin 100000000000000000000) = Fin 0
   \<and> (\<bar>r\<bar> \<le> 10000000000 \<longrightarrow> sanitize (Fin r) = Fin r)"
  by (cases x) (auto simp add: sanitize_cases)

theorem sanitize_idempotent_witness:
  "\<bar>2.5 :: real\<bar> \<le> 10000000000 \<and> sanitize (Fin 2.5) = Fin 2.5
   \<and> sanitize (sanitize PInf) = sanitize PInf"
proof -
  have h: "\<bar>2.5 :: real\<bar> \<le> 10000000000" by simp
  from sanitize_idempotent [of PInf "2.5"] h show ?thesis by blast
qed


section \<open>The random generator\<close>

lemma fastRandom_value:
  "fst (fastRandom s) = Fin (real (unat (xorshift s AND 0x7FFFFFFF)) / 2147483647)"
  by (simp add: fastRandom_def Let_def float_of_u32_def float_of_int_def)

lemma fastRandom_state: "snd (fastRandom s) = xorshift s"
  by (simp add: fastRandom_def Let_def)

lemma fastRandom_range: "\<exists>r. fst (fastRandom s) = Fin r \<and> 0 \<le> r \<and> r \<le> 1"
proof -
  define w where "w = xorshift s AND 0x7FFFFFFF"
  have "w \<le> 0x7FFFFFFF" unfolding w_def by (rule word_and_le1)
  then have "unat w \<le> unat (0x7FFFFFFF :: 32 word)"
    by (simp only: word_le_nat_alt)
  then have "unat w \<le> 2147483647" by simp
  then have "(of_nat (unat w) :: real) \<le> of_nat 2147483647" by (rule of_nat_mono)
  then have "real (unat w) / 2147483647 \<le> 1" by simp
  moreover have "0 \<le> real (unat w)" by (rule of_nat_0_le_iff)
  then have "0 \<le> real (unat w) / 2147483647" by (rule divide_nonneg_nonneg) simp
  ultimately show ?thesis
    using fastRandom_value [of s] unfolding w_def by blast
qed

text \<open>A word that equals a proper shift of itself is zero: shifting often enough clears it.\<close>

lemma xor_zero_eq:
  fixes a b :: "32 word"
  assumes "a XOR b = 0"
  shows "a = b"
proof -
  have "a = (a XOR b) XOR b" by (simp add: xor.assoc)
  then show ?thesis using assms by simp
qed

lemma push13_fix_zero:
  fixes x :: "32 word"
  assumes "x XOR push_bit 13 x = 0"
  shows "x = 0"
proof -
  have e: "x = push_bit 13 x" using assms by (rule xor_zero_eq)
  have "x = push_bit 13 (push_bit 13 (push_bit 13 x))" using e by simp
  also have "\<dots> = push_bit 39 x" by simp
  also have "\<dots> = 0" by simp
  finally show ?thesis .
qed

lemma drop17_fix_zero:
  fixes x :: "32 word"
  assumes "x XOR drop_bit 17 x = 0"
  shows "x = 0"
proof -
  have e: "x = drop_bit 17 x" using assms by (rule xor_zero_eq)
  have "x = drop_bit 17 (drop_bit 17 x)" using e by simp
  also have "\<dots> = drop_bit 34 x" by simp
  also have "\<dots> = 0" by simp
  finally show ?thesis .
qed

lemma push5_fix_zero:
  fixes x :: "32 word"
  assumes "x XOR push_bit 5 x = 0"
  shows "x = 0"
proof -
  have e: "x = push_bit 5 x" using assms by (rule xor_zero_eq)
  have "x = push_bit 5 (push_bit 5 (push_bit 5 (push_bit 5 (push_bit 5 (push_bit 5 (push_bit 5 x))))))"
    using e by simp
  also have "\<dots> = push_bit 35 x" by simp
  also have "\<dots> = 0" by simp
  finally show ?thesis .
qed

lemma xorshift_nonzero: "s \<noteq> 0 \<Longrightarrow> xorshift s \<noteq> 0"
  unfolding xorshift_def Let_def
  using push13_fix_zero drop17_fix_zero push5_fix_zero by blast

lemma xorshift_iterate_nonzero: "s \<noteq> 0 \<Longrightarrow> (xorshift ^^ n) s \<noteq> 0"
  by (induction n) (simp_all add: xorshift_nonzero)

lemma processAGR_Fin: "\<exists>r. fst (processAGR a s) = Fin r"
proof -
  obtain r where "fst (fastRandom s) = Fin r" using fastRandom_range by blast
  then show ?thesis
    by (simp add: processAGR_def agr_randomization_def agr_attenuation_def
        agr_amplification_def float_of_int_def minus_float_def split_beta Let_def)
qed

lemma processAGR_state:
  "snd (processAGR a s) = (if a \<le> 25 then xorshift s else s)"
  by (simp add: processAGR_def agr_randomization_def split_beta Let_def fastRandom_state)

lemma processAGR_nonzero: "s \<noteq> 0 \<Longrightarrow> snd (processAGR a s) \<noteq> 0"
  by (simp add: processAGR_state xorshift_nonzero)

lemma construct_seed: "randState (dtc (construct sr vs)) = 0x12345678"
  by (simp add: construct_def Let_def calculateFilterCoeffs_def zero_DTC_def)

text \<open>
  Claim C6. At the control value 25 the gain is exactly \<open>0.5\<close> for every random state,
  and the attenuation formula gives \<open>0.5\<close> there too; at 50 the gain is exactly \<open>1\<close>
  (and the amplification formula gives \<open>1\<close> there too); at 100 it is exactly \<open>4\<close>. At 50
  and 100 the random state is left as it was.
\<close>

theorem agr_anchor_values:
  "fst (processAGR 25 s) = Fin 0.5 \<and> agr_attenuation 25 = Fin 0.5
   \<and> processAGR 50 s = (Fin 1, s) \<and> agr_amplification 50 = Fin 1
   \<and> processAGR 100 s = (Fin 4, s)"
proof -
  obtain r where r: "fst (fastRandom s) = Fin r" using fastRandom_range by blast
  have "fst (processAGR 25 s) = Fin 0.5"
    using r by (simp add: processAGR_def agr_randomization_def float_of_int_def minus_float_def
        split_beta Let_def)
  moreover have "agr_attenuation 25 = Fin 0.5"
    by (simp add: agr_attenuation_def float_of_int_def)
  moreover have "processAGR 50 s = (Fin 1, s)"
    by (simp add: processAGR_def agr_attenuation_def float_of_int_def)
  moreover have "agr_amplification 50 = Fin 1"
    by (simp add: agr_amplification_def float_of_int_def)
  moreover have "processAGR 100 s = (Fin 4, s)"
    by (simp add: processAGR_def agr_amplification_def float_of_int_def)
  ultimately show ?thesis by simp
qed

theorem agr_anchor_values_witness:
  "fst (processAGR 25 0x12345678) = Fin 0.5 \<and> processAGR 50 0x12345678 = (Fin 1, 0x12345678)
   \<and> processAGR 100 0x12345678 = (Fin 4, 0x12345678)"
  using agr_anchor_values [of "0x12345678"] by blast

section \<open>The coefficients\<close>

lemma calculateFilterCoeffs_Fin:
  assumes "20 \<le> c" "c \<le> 0.45 * sr"
  shows "calculateFilterCoeffs d (Fin c) (Fin r) (Fin sr) =
         d\<lparr>g := Fin (tan (pi * c / sr)), k := Fin (2 - r * 1.9),
           gInv := Fin 1 / (Fin 1 + Fin (tan (pi * c / sr)) * (Fin (tan (pi * c / sr)) + Fin (2 - r * 1.9)))\<rparr>"
proof -
  have "0 < sr" using assms by simp
  then show ?thesis
    using assms
    by (simp add: calculateFilterCoeffs_def Let_def M_PI_def tanf_def minus_float_def mult.commute)
qed

lemma prewarp_positive:
  assumes "20 \<le> c" "c \<le> 0.45 * sr"
  shows "0 < tan (pi * c / sr)"
proof -
  have sr: "0 < sr" using assms by simp
  define t where "t = c / sr"
  have t: "0 < t" "t \<le> 9 / 20"
    using assms sr by (simp_all add: t_def pos_divide_le_eq)
  have "pi * t \<le> pi * (9 / 20)"
    using t by (intro mult_left_mono) simp_all
  moreover have "pi * (9 / 20) < pi / 2" using pi_gt_zero by simp
  ultimately have up: "pi * t < pi / 2" by linarith
  have lo: "0 < pi * t" using t by simp
  have "0 < tan (pi * t)" using lo up by (rule tan_gt_zero)
  then show ?thesis by (simp add: t_def)
qed

text \<open>
  Claim C3. For a finite cutoff in \<open>[20, 0.45 * rate]\<close> and a finite resonance in
  \<open>[0, 1]\<close>, \<open>calculateFilterCoeffs\<close> stores finite coefficients with \<open>g \<ge> 0\<close>,
  \<open>k\<close> in \<open>[0.1, 2]\<close> (so never zero) and \<open>gInv = 1 / (1 + g * (g + k))\<close> strictly
  positive.
\<close>

theorem coefficient_bounds:
  assumes "20 \<le> c" and "c \<le> 0.45 * sr" and "0 \<le> r" and "r \<le> 1"
  shows "\<exists>gv kv iv.
           g (calculateFilterCoeffs d (Fin c) (Fin r) (Fin sr)) = Fin gv
         \<and> k (calculateFilterCoeffs d (Fin c) (Fin r) (Fin sr)) = Fin kv
         \<and> gInv (calculateFilterCoeffs d (Fin c) (Fin r) (Fin sr)) = Fin iv
         \<and> 0 \<le> gv \<and> 0.1 \<le> kv \<and> kv \<le> 2 \<and> kv \<noteq> 0
         \<and> 0 < iv \<and> iv = 1 / (1 + gv * (gv + kv))"
proof -
  define gv where "gv = tan (pi * c / sr)"
  define kv where "kv = 2 - r * 1.9"
  have gpos: "0 < gv" unfolding gv_def using assms(1,2) by (rule prewarp_positive)
  have kb: "0.1 \<le> kv" "kv \<le> 2" using assms(3,4) by (simp_all add: kv_def)
  have "0 < gv * (gv + kv)" using gpos kb by (intro mult_pos_pos) simp_all
  then have den: "0 < 1 + gv * (gv + kv)" by linarith
  then have ipos: "0 < 1 / (1 + gv * (gv + kv))" by simp
  have "gInv (calculateFilterCoeffs d (Fin c) (Fin r) (Fin sr)) = Fin (1 / (1 + gv * (gv + kv)))"
    using den assms(1,2) by (simp add: calculateFilterCoeffs_Fin gv_def kv_def)
  moreover have "g (calculateFilterCoeffs d (Fin c) (Fin r) (Fin sr)) = Fin gv"
    using assms(1,2) by (simp add: calculateFilterCoeffs_Fin gv_def)
  moreover have "k (calculateFilterCoeffs d (Fin c) (Fin r) (Fin sr)) = Fin kv"
    using assms(1,2) by (simp add: calculateFilterCoeffs_Fin kv_def)
  moreover have "kv \<noteq> 0" using kb by linarith
  ultimately show ?thesis
    using gpos kb ipos
    by (intro exI [of _ gv] exI [of _ kv] exI [of _ "1 / (1 + gv * (gv + kv))"]) simp
qed

theorem coefficient_bounds_witness:
  "\<exists>gv kv iv.
           g (calculateFilterCoeffs zero_DTC (Fin 1000) (Fin 0.5) (Fin 96000)) = Fin gv
         \<and> k (calculateFilterCoeffs zero_DTC (Fin 1000) (Fin 0.5) (Fin 96000)) = Fin kv
         \<and> gInv (calculateFilterCoeffs zero_DTC (Fin 1000) (Fin 0.5) (Fin 96000)) = Fin iv
         \<and> 0 \<le> gv \<and> 0.1 \<le> kv \<and> kv \<le> 2 \<and> kv \<noteq> 0
         \<and> 0 < iv \<and> iv = 1 / (1 + gv * (gv + kv))"
  by (rule coefficient_bounds) simp_all


section \<open>What the loops leave unchanged\<close>

lemma step_prepare_locals:
  "numFrames (snd (step_prepare sr pThis bus nfb4)) = nfb4 * 4"
  "in_ptr (snd (step_prepare sr pThis bus nfb4)) = (kParamInput (v pThis) - 1) * (nfb4 * 4)"
  "out_ptr (snd (step_prepare sr pThis bus nfb4)) = (kParamOutput (v pThis) - 1) * (nfb4 * 4)"
  "replace (snd (step_prepare sr pThis bus nfb4)) = (kParamOutputMode (v pThis) \<noteq> 0)"
  "mode (snd (step_prepare sr pThis bus nfb4)) = kParamMode (v pThis)"
  "model (snd (step_prepare sr pThis bus nfb4)) = kParamModel (v pThis)"
  "oversample (snd (step_prepare sr pThis bus nfb4)) = push_bit (nat (kParamOversample (v pThis))) 1"
  by (simp_all add: step_prepare_def Let_def)

lemma calculateFilterCoeffs_fields:
  "lp (calculateFilterCoeffs d c r sr) = lp d"
  "bp (calculateFilterCoeffs d c r sr) = bp d"
  "hp (calculateFilterCoeffs d c r sr) = hp d"
  "inputLevel (calculateFilterCoeffs d c r sr) = inputLevel d"
  "outputLevel (calculateFilterCoeffs d c r sr) = outputLevel d"
  "cutoffSmooth (calculateFilterCoeffs d c r sr) = cutoffSmooth d"
  "resonanceSmooth (calculateFilterCoeffs d c r sr) = resonanceSmooth d"
  "randState (calculateFilterCoeffs d c r sr) = randState d"
  by (simp_all add: calculateFilterCoeffs_def Let_def)

lemma step_prepare_dtc:
  "lp (fst (step_prepare sr pThis bus nfb4)) = lp (dtc pThis)"
  "bp (fst (step_prepare sr pThis bus nfb4)) = bp (dtc pThis)"
  "hp (fst (step_prepare sr pThis bus nfb4)) = hp (dtc pThis)"
  "inputLevel (fst (step_prepare sr pThis bus nfb4)) = inputLevel (dtc pThis)"
  "outputLevel (fst (step_prepare sr pThis bus nfb4)) = outputLevel (dtc pThis)"
  "randState (fst (step_prepare sr pThis bus nfb4)) = randState (dtc pThis)"
  by (simp_all add: step_prepare_def Let_def calculateFilterCoeffs_fields)


lemma oversample_loop_preserves:
  assumes "\<And>s. P (fst (body s)) = P (fst s)"
  shows "P (fst (oversample_loop n body s)) = P (fst s)"
  by (induction n arbitrary: s) (simp_all add: assms)

lemma oversample_body_fields:
  "g (fst (oversample_body mo md x ra s)) = g (fst s)"
  "k (fst (oversample_body mo md x ra s)) = k (fst s)"
  "gInv (fst (oversample_body mo md x ra s)) = gInv (fst s)"
  "randState (fst (oversample_body mo md x ra s)) = randState (fst s)"
  "agrSmooth (fst (oversample_body mo md x ra s)) = agrSmooth (fst s)"
  "driveSmooth (fst (oversample_body mo md x ra s)) = driveSmooth (fst s)"
  "inputLevel (fst (oversample_body mo md x ra s)) = inputLevel (fst s)"
  "outputLevel (fst (oversample_body mo md x ra s)) = outputLevel (fst s)"
  by (simp_all add: oversample_body_def Let_def split_beta)

lemma oversample_loop_coeffs:
  "coeffs (fst (oversample_loop n (oversample_body mo md x ra) s)) = coeffs (fst s)"
  by (rule oversample_loop_preserves) (simp add: coeffs_def oversample_body_fields)

lemma oversample_loop_randState:
  "randState (fst (oversample_loop n (oversample_body mo md x ra) s)) = randState (fst s)"
  by (rule oversample_loop_preserves) (simp add: oversample_body_fields)

lemma oversample_loop_agrSmooth:
  "agrSmooth (fst (oversample_loop n (oversample_body mo md x ra) s)) = agrSmooth (fst s)"
  by (rule oversample_loop_preserves) (simp add: oversample_body_fields)

lemma process_sample_coeffs: "coeffs (fst (process_sample L x d)) = coeffs d"
proof -
  have "coeffs (fst (process_sample L x d)) =
        coeffs (d\<lparr>randState := snd (processAGR (int_of_float (agrSmooth d)) (randState d))\<rparr>)"
    by (simp add: process_sample_def Let_def split_beta oversample_loop_coeffs)
  then show ?thesis by (simp add: coeffs_def)
qed

lemma process_sample_randState:
  "randState (fst (process_sample L x d)) = snd (processAGR (int_of_float (agrSmooth d)) (randState d))"
  by (simp add: process_sample_def Let_def split_beta oversample_loop_randState)

lemma process_sample_agrSmooth:
  "agrSmooth (fst (process_sample L x d)) = agrSmooth d"
  by (simp add: process_sample_def Let_def split_beta oversample_loop_agrSmooth)

lemma frame_body_dtc:
  "ls_dtc (frame_body L i s) = fst (process_sample L (ls_bus s (in_ptr L + i)) (ls_dtc s))"
  by (simp add: frame_body_def Let_def split_beta)

lemma frame_loop_preserves:
  assumes "\<And>i s. P (ls_dtc (frame_body L i s)) = P (ls_dtc s)"
  shows "P (ls_dtc (frame_loop L i n s)) = P (ls_dtc s)"
  by (induction n arbitrary: i s) (simp_all add: assms)

lemma frame_loop_coeffs: "coeffs (ls_dtc (frame_loop L i n s)) = coeffs (ls_dtc s)"
  by (rule frame_loop_preserves) (simp add: frame_body_dtc process_sample_coeffs)

lemma frame_loop_agrSmooth: "agrSmooth (ls_dtc (frame_loop L i n s)) = agrSmooth (ls_dtc s)"
  by (rule frame_loop_preserves) (simp add: frame_body_dtc process_sample_agrSmooth)

lemma frame_loop_randState:
  "randState (ls_dtc (frame_loop L i n s)) =
   ((\<lambda>r. snd (processAGR (int_of_float (agrSmooth (ls_dtc s))) r)) ^^ n) (randState (ls_dtc s))"
proof (induction n arbitrary: i s)
  case 0
  show ?case by simp
next
  case (Suc n)
  have a: "agrSmooth (ls_dtc (frame_body L i s)) = agrSmooth (ls_dtc s)"
    by (simp add: frame_body_dtc process_sample_agrSmooth)
  have r: "randState (ls_dtc (frame_body L i s)) =
           snd (processAGR (int_of_float (agrSmooth (ls_dtc s))) (randState (ls_dtc s)))"
    by (simp add: frame_body_dtc process_sample_randState)
  show ?case
    by (simp only: frame_loop.simps Suc.IH a r funpow_Suc_right o_apply)
qed




section \<open>Coefficients within a block\<close>

lemma calculateFilterCoeffs_again:
  "calculateFilterCoeffs (calculateFilterCoeffs d c r sr) c r sr = calculateFilterCoeffs d c r sr"
  by (simp add: calculateFilterCoeffs_def Let_def)

lemma step_prepare_coeffs:
  "fst (step_prepare sr pThis bus nfb4) =
   calculateFilterCoeffs (fst (step_prepare sr pThis bus nfb4))
     (cutoffSmooth (fst (step_prepare sr pThis bus nfb4)))
     (resonanceSmooth (fst (step_prepare sr pThis bus nfb4)))
     (sr * float_of_int (oversample (snd (step_prepare sr pThis bus nfb4))))"
  by (simp add: step_prepare_def Let_def calculateFilterCoeffs_fields calculateFilterCoeffs_again)

lemma step_dtc_coeffs:
  "coeffs (dtc (fst (step sr pThis bus nfb4))) = coeffs (fst (step_prepare sr pThis bus nfb4))"
proof -
  have "coeffs (dtc (fst (step sr pThis bus nfb4))) =
        coeffs (ls_dtc (frame_loop (snd (step_prepare sr pThis bus nfb4)) 0
           (nat (numFrames (snd (step_prepare sr pThis bus nfb4))))
           \<lparr>ls_dtc = fst (step_prepare sr pThis bus nfb4), ls_bus = bus,
            maxIn = Fin 0, maxOut = Fin 0\<rparr>))"
    by (simp add: step_def Let_def split_beta coeffs_def)
  then show ?thesis by (simp add: frame_loop_coeffs)
qed

text \<open>
  Claim C8. In one call of \<open>step\<close> the coefficients are those that
  \<open>calculateFilterCoeffs\<close> stored before the per-sample loop, from the block's smoothed
  cutoff and resonance and the oversampled rate. The DTC block holds the same \<open>g\<close>,
  \<open>k\<close> and \<open>gInv\<close> after any number \<open>n\<close> of samples, after any number \<open>j\<close> of
  oversampling iterations inside the next sample (whatever its input, random state and
  accumulator), and when \<open>step\<close> returns.
\<close>

theorem coefficients_fixed_in_block:
  "fst (step_prepare sr pThis bus nfb4) =
     calculateFilterCoeffs (fst (step_prepare sr pThis bus nfb4))
       (cutoffSmooth (fst (step_prepare sr pThis bus nfb4)))
       (resonanceSmooth (fst (step_prepare sr pThis bus nfb4)))
       (sr * float_of_int (oversample (snd (step_prepare sr pThis bus nfb4))))
   \<and> coeffs (ls_dtc (frame_loop (snd (step_prepare sr pThis bus nfb4)) 0 n
         \<lparr>ls_dtc = fst (step_prepare sr pThis bus nfb4), ls_bus = bus,
          maxIn = Fin 0, maxOut = Fin 0\<rparr>))
       = coeffs (fst (step_prepare sr pThis bus nfb4))
   \<and> coeffs (fst (oversample_loop j (oversample_body mo md x ra)
         (ls_dtc (frame_loop (snd (step_prepare sr pThis bus nfb4)) 0 n
            \<lparr>ls_dtc = fst (step_prepare sr pThis bus nfb4), ls_bus = bus,
             maxIn = Fin 0, maxOut = Fin 0\<rparr>)\<lparr>randState := rs\<rparr>, acc)))
       = coeffs (fst (step_prepare sr pThis bus nfb4))
   \<and> coeffs (dtc (fst (step sr pThis bus nfb4))) = coeffs (fst (step_prepare sr pThis bus nfb4))"
proof -
  have "coeffs (fst (oversample_loop j (oversample_body mo md x ra)
         (ls_dtc (frame_loop (snd (step_prepare sr pThis bus nfb4)) 0 n
            \<lparr>ls_dtc = fst (step_prepare sr pThis bus nfb4), ls_bus = bus,
             maxIn = Fin 0, maxOut = Fin 0\<rparr>)\<lparr>randState := rs\<rparr>, acc)))
       = coeffs (ls_dtc (frame_loop (snd (step_prepare sr pThis bus nfb4)) 0 n
            \<lparr>ls_dtc = fst (step_prepare sr pThis bus nfb4), ls_bus = bus,
             maxIn = Fin 0, maxOut = Fin 0\<rparr>))"
    by (simp add: oversample_loop_coeffs) (simp add: coeffs_def)
  then show ?thesis
    using step_prepare_coeffs [of sr pThis bus nfb4] step_dtc_coeffs [of sr pThis bus nfb4]
    by (simp add: frame_loop_coeffs)
qed

theorem coefficients_fixed_in_block_witness:
  "coeffs (ls_dtc (frame_loop (snd (step_prepare (Fin 48000) example_instance (\<lambda>x. Fin 1) 1)) 0 3
         \<lparr>ls_dtc = fst (step_prepare (Fin 48000) example_instance (\<lambda>x. Fin 1) 1),
          ls_bus = (\<lambda>x. Fin 1), maxIn = Fin 0, maxOut = Fin 0\<rparr>))
     = coeffs (fst (step_prepare (Fin 48000) example_instance (\<lambda>x. Fin 1) 1))
   \<and> coeffs (dtc (fst (step (Fin 48000) example_instance (\<lambda>x. Fin 1) 1)))
     = coeffs (fst (step_prepare (Fin 48000) example_instance (\<lambda>x. Fin 1) 1))"
  using coefficients_fixed_in_block [of "Fin 48000" example_instance "\<lambda>x. Fin 1" 1 3]
  by blast



section \<open>The random stream of the AGR\<close>

text \<open>
  Claim C9. Two runs of the per-sample loop that start from the same random state and
  the same AGR zone value have the same random state after any number \<open>n\<close> of samples,
  and \<open>processAGR\<close> returns the same gain and state for the next sample, whatever the
  two runs' bus contents, filter states, selectors and oversampling factors are. The
  gain enters a sample only as the factor of its conditioned input.
\<close>

theorem agr_gains_deterministic:
  assumes "randState (ls_dtc sa) = randState (ls_dtc sb)"
    and "int_of_float (agrSmooth (ls_dtc sa)) = int_of_float (agrSmooth (ls_dtc sb))"
  shows "randState (ls_dtc (frame_loop La ia n sa)) = randState (ls_dtc (frame_loop Lb ib n sb))
       \<and> processAGR (int_of_float (agrSmooth (ls_dtc (frame_loop La ia n sa))))
                    (randState (ls_dtc (frame_loop La ia n sa)))
         = processAGR (int_of_float (agrSmooth (ls_dtc (frame_loop Lb ib n sb))))
                    (randState (ls_dtc (frame_loop Lb ib n sb)))
       \<and> fst (snd (process_sample La x (ls_dtc sa)))
         = x * fst (processAGR (int_of_float (agrSmooth (ls_dtc sa))) (randState (ls_dtc sa)))
             * driveSmooth (ls_dtc sa)"
proof -
  have "randState (ls_dtc (frame_loop La ia n sa)) = randState (ls_dtc (frame_loop Lb ib n sb))"
    using assms by (simp add: frame_loop_randState)
  moreover have "fst (snd (process_sample La x (ls_dtc sa)))
         = x * fst (processAGR (int_of_float (agrSmooth (ls_dtc sa))) (randState (ls_dtc sa)))
             * driveSmooth (ls_dtc sa)"
    by (simp add: process_sample_def Let_def split_beta)
  ultimately show ?thesis
    using assms(2) by (simp add: frame_loop_agrSmooth)
qed

theorem agr_gains_deterministic_witness:
  "randState (ls_dtc (frame_loop example_locals 0 5
       \<lparr>ls_dtc = example_dtc\<lparr>agrSmooth := Fin 10\<rparr>, ls_bus = (\<lambda>x. Fin 0),
        maxIn = Fin 0, maxOut = Fin 0\<rparr>))
   = randState (ls_dtc (frame_loop (example_locals\<lparr>mode := 1, model := 2, oversample := 4\<rparr>) 0 5
       \<lparr>ls_dtc = example_dtc\<lparr>agrSmooth := Fin 10.5, lp := Fin 1\<rparr>, ls_bus = (\<lambda>x. Fin 1),
        maxIn = Fin 0, maxOut = Fin 0\<rparr>))"
proof -
  have h1: "randState (ls_dtc \<lparr>ls_dtc = example_dtc\<lparr>agrSmooth := Fin 10\<rparr>, ls_bus = (\<lambda>x. Fin 0),
        maxIn = Fin 0, maxOut = Fin 0\<rparr>)
      = randState (ls_dtc \<lparr>ls_dtc = example_dtc\<lparr>agrSmooth := Fin 10.5, lp := Fin 1\<rparr>,
        ls_bus = (\<lambda>x. Fin 1), maxIn = Fin 0, maxOut = Fin 0\<rparr>)"
    by simp
  have h2: "int_of_float (agrSmooth (ls_dtc \<lparr>ls_dtc = example_dtc\<lparr>agrSmooth := Fin 10\<rparr>,
        ls_bus = (\<lambda>x. Fin 0), maxIn = Fin 0, maxOut = Fin 0\<rparr>))
      = int_of_float (agrSmooth (ls_dtc \<lparr>ls_dtc = example_dtc\<lparr>agrSmooth := Fin 10.5, lp := Fin 1\<rparr>,
        ls_bus = (\<lambda>x. Fin 1), maxIn = Fin 0, maxOut = Fin 0\<rparr>))"
    by (simp add: int_of_float_def)
  from agr_gains_deterministic [OF h1 h2] show ?thesis by blast
qed


text \<open>
  Claim C10. The state update of \<open>fastRandom\<close> sends a non-zero state to a non-zero
  state; \<open>construct\<close> stores the seed \<open>0x12345678\<close>, so the state is non-zero after
  any number of calls from it; one sample of the audio loop keeps a non-zero state
  non-zero; and every value returned is a finite number in \<open>[0, 1]\<close>.
\<close>

theorem random_state_never_zero:
  "(s \<noteq> 0 \<longrightarrow> snd (fastRandom s) \<noteq> 0)
   \<and> randState (dtc (construct sr vs)) = 0x12345678
   \<and> ((\<lambda>r. snd (fastRandom r)) ^^ n) (randState (dtc (construct sr vs))) \<noteq> 0
   \<and> (randState d \<noteq> 0 \<longrightarrow> randState (fst (process_sample L x d)) \<noteq> 0)
   \<and> (\<exists>r. fst (fastRandom s) = Fin r \<and> 0 \<le> r \<and> r \<le> 1)"
proof -
  have f: "(\<lambda>r. snd (fastRandom r)) = xorshift"
    by (rule ext) (rule fastRandom_state)
  have "(xorshift ^^ n) (0x12345678 :: 32 word) \<noteq> 0"
    by (rule xorshift_iterate_nonzero) simp
  then have "((\<lambda>r. snd (fastRandom r)) ^^ n) (randState (dtc (construct sr vs))) \<noteq> 0"
    unfolding f construct_seed .
  moreover have "s \<noteq> 0 \<longrightarrow> snd (fastRandom s) \<noteq> 0"
    by (simp add: fastRandom_state xorshift_nonzero)
  moreover have "randState d \<noteq> 0 \<longrightarrow> randState (fst (process_sample L x d)) \<noteq> 0"
    by (simp add: process_sample_randState processAGR_nonzero)
  ultimately show ?thesis
    using fastRandom_range [of s] construct_seed [of sr vs] by blast
qed

theorem random_state_never_zero_witness:
  "(1 :: 32 word) \<noteq> 0 \<and> snd (fastRandom 1) \<noteq> 0
   \<and> ((\<lambda>r. snd (fastRandom r)) ^^ 3) (randState (dtc example_instance)) \<noteq> 0
   \<and> (\<exists>r. fst (fastRandom 1) = Fin r \<and> 0 \<le> r \<and> r \<le> 1)"
proof -
  have h: "(1 :: 32 word) \<noteq> 0" by simp
  from random_state_never_zero [of 1 "Fin 48000" example_params 3] h
  show ?thesis unfolding example_instance_def by blast
qed




section \<open>The output sample\<close>

lemma output_saturation_bound:
  "\<exists>y. output_saturation md (sanitize a) = Fin y \<and> \<bar>y\<bar> \<le> 1"
proof -
  obtain r where r: "sanitize a = Fin r" using sanitize_finite by blast
  obtain y1 where y1: "fastTanh (Fin r) = Fin y1" "\<bar>y1\<bar> \<le> 1"
    using fastTanh_bound by blast
  obtain y2 where y2: "diodeClip (Fin r) = Fin y2" "- 0.5 < y2" "y2 < 1"
    using diodeClip_bound by blast
  obtain y3 where y3: "aggressiveSat (Fin r) = Fin y3" "\<bar>y3\<bar> \<le> 0.8"
    using aggressiveSat_bound by blast
  have "\<bar>y2\<bar> \<le> 1" using y2 by simp
  moreover have "\<bar>y3\<bar> \<le> 1" using y3 by simp
  ultimately show ?thesis
    using r y1 y2 y3 by (simp add: output_saturation_def)
qed

lemma process_sample_bounded:
  "\<exists>y. snd (snd (process_sample L x d)) = Fin y \<and> \<bar>y\<bar> \<le> 1"
  by (simp add: process_sample_def Let_def split_beta output_saturation_bound)

lemma frame_body_bus:
  "ls_bus (frame_body L i s) =
   (ls_bus s)(out_ptr L + i :=
      (if replace L then snd (snd (process_sample L (ls_bus s (in_ptr L + i)) (ls_dtc s)))
       else ls_bus s (out_ptr L + i)
            + snd (snd (process_sample L (ls_bus s (in_ptr L + i)) (ls_dtc s)))))"
  by (simp add: frame_body_def Let_def split_beta)

text \<open>
  Claim C1. One iteration of the per-sample loop, from any loop state (any input sample,
  finite or not, any DTC block) and with any selectors and oversampling factor, produces
  a finite output sample of magnitude at most \<open>1\<close>, inside the envelope
  \<open>[-1.2, 1.2]\<close>; the output bus receives it, or the sum of its old value and it.
\<close>

theorem output_sample_bounded:
  "\<exists>y. snd (snd (process_sample L (ls_bus s (in_ptr L + i)) (ls_dtc s))) = Fin y
       \<and> \<bar>y\<bar> \<le> 1 \<and> - 1.2 \<le> y \<and> y \<le> 1.2
       \<and> ls_bus (frame_body L i s) (out_ptr L + i)
           = (if replace L then Fin y else ls_bus s (out_ptr L + i) + Fin y)"
proof -
  obtain y where y: "snd (snd (process_sample L (ls_bus s (in_ptr L + i)) (ls_dtc s))) = Fin y"
      "\<bar>y\<bar> \<le> 1"
    using process_sample_bounded by blast
  have "- 1.2 \<le> y \<and> y \<le> 1.2" using y(2) by (auto simp add: abs_le_iff)
  then show ?thesis using y by (simp add: frame_body_bus)
qed

theorem output_sample_bounded_witness:
  "\<exists>y. snd (snd (process_sample example_locals (Fin 1) example_dtc)) = Fin y
       \<and> \<bar>y\<bar> \<le> 1 \<and> - 1.2 \<le> y \<and> y \<le> 1.2"
  using output_sample_bounded [of example_locals
      "\<lparr>ls_dtc = example_dtc, ls_bus = (\<lambda>x. Fin 1), maxIn = Fin 0, maxOut = Fin 0\<rparr>" 0]
  by auto



section \<open>Silence\<close>

lemma zn_zero [simp]: "zero_or_nan (Fin 0)" and zn_nan [simp]: "zero_or_nan NaN"
  by (simp_all add: zero_or_nan_def)

lemma zn_mult_left: "zero_or_nan x \<Longrightarrow> zero_or_nan (x * y)"
  by (cases y) (auto simp add: zero_or_nan_def)

lemma zn_mult_right: "zero_or_nan y \<Longrightarrow> zero_or_nan (x * y)"
  by (cases x) (auto simp add: zero_or_nan_def)

lemma zn_add: "zero_or_nan x \<Longrightarrow> zero_or_nan y \<Longrightarrow> zero_or_nan (x + y)"
  by (auto simp add: zero_or_nan_def)

lemma zn_minus: "zero_or_nan x \<Longrightarrow> zero_or_nan y \<Longrightarrow> zero_or_nan (x - y)"
  by (auto simp add: zero_or_nan_def minus_float_def)

lemma zn_div: "zero_or_nan x \<Longrightarrow> zero_or_nan (x / Fin c)"
  by (auto simp add: zero_or_nan_def)

lemma zn_abs: "zero_or_nan x \<Longrightarrow> zero_or_nan \<bar>x\<bar>"
  by (auto simp add: zero_or_nan_def)

lemma zn_not_greater: "zero_or_nan x \<Longrightarrow> \<not> Fin 0 < x"
  by (auto simp add: zero_or_nan_def)

lemma zn_sanitize: "zero_or_nan x \<Longrightarrow> sanitize x = Fin 0"
  by (auto simp add: zero_or_nan_def sanitize_cases)

lemma zn_softClamp: "zero_or_nan x \<Longrightarrow> zero_or_nan (softClamp x (Fin 5))"
  by (auto simp add: zero_or_nan_def softClamp_def)

lemma zn_fastTanh: "zero_or_nan x \<Longrightarrow> zero_or_nan (fastTanh x)"
  by (auto simp add: zero_or_nan_def fastTanh_def)

lemma zn_diodeClip: "zero_or_nan x \<Longrightarrow> zero_or_nan (diodeClip x)"
  by (auto simp add: zero_or_nan_def diodeClip_def expf_def minus_float_def)

lemma zn_aggressiveSat: "zero_or_nan x \<Longrightarrow> zero_or_nan (aggressiveSat x)"
proof -
  assume "zero_or_nan x"
  then have "zero_or_nan (fastTanh (x * Fin 2))"
    by (intro zn_fastTanh zn_mult_left)
  then show ?thesis
    by (auto simp add: zero_or_nan_def aggressiveSat_def Let_def)
qed

lemma zn_input_saturation: "zero_or_nan x \<Longrightarrow> zero_or_nan (input_saturation md x ra)"
  by (simp add: input_saturation_def zn_fastTanh zn_diodeClip zn_aggressiveSat zn_mult_left)

lemma zn_accumulate:
  "zero_or_nan acc \<Longrightarrow> zero_or_nan a \<Longrightarrow> zero_or_nan b \<Longrightarrow> zero_or_nan c
   \<Longrightarrow> zero_or_nan (accumulate mo acc a b c)"
  by (simp add: accumulate_def zn_add zn_minus)

lemma output_saturation_zero: "output_saturation md (Fin 0) = Fin 0"
  by (simp add: output_saturation_def fastTanh_Fin diodeClip_Fin aggressiveSat_def)

lemma oversample_body_rest:
  assumes "at_rest d" "zero_or_nan x" "zero_or_nan acc"
  shows "\<exists>acc'. oversample_body mo md x ra (d, acc) = (d, acc') \<and> zero_or_nan acc'"
proof -
  define u where "u = input_saturation md x ra"
  define hp1 where "hp1 = (u - k d * bp d - lp d) * gInv d"
  define bp1 where "bp1 = g d * hp1 + bp d"
  define lp1 where "lp1 = g d * bp1 + lp d"
  have r: "lp d = Fin 0" "bp d = Fin 0" "hp d = Fin 0" using assms(1) by (simp_all add: at_rest_def)
  have u: "zero_or_nan u" unfolding u_def using assms(2) by (rule zn_input_saturation)
  have h: "zero_or_nan hp1"
    unfolding hp1_def r by (intro zn_mult_left zn_minus zn_mult_right u) simp_all
  have b: "zero_or_nan bp1"
    unfolding bp1_def r by (intro zn_add zn_mult_right h) simp
  have l: "zero_or_nan lp1"
    unfolding lp1_def r by (intro zn_add zn_mult_right b) simp
  have b2: "zero_or_nan (softClamp bp1 (Fin 5))" using b by (rule zn_softClamp)
  have l2: "zero_or_nan (softClamp lp1 (Fin 5))" using l by (rule zn_softClamp)
  have "d\<lparr>bp := sanitize (softClamp bp1 (Fin 5)), lp := sanitize (softClamp lp1 (Fin 5)),
          hp := sanitize hp1\<rparr> = d"
    using r by (simp add: zn_sanitize b2 l2 h)
  moreover have "zero_or_nan (accumulate mo acc (softClamp lp1 (Fin 5)) (softClamp bp1 (Fin 5)) hp1)"
    using assms(3) l2 b2 h by (rule zn_accumulate)
  ultimately show ?thesis
    by (simp add: oversample_body_def Let_def u_def hp1_def bp1_def lp1_def)
qed

lemma oversample_loop_rest:
  assumes "at_rest d" "zero_or_nan x"
  shows "zero_or_nan acc \<Longrightarrow>
         \<exists>acc'. oversample_loop n (oversample_body mo md x ra) (d, acc) = (d, acc') \<and> zero_or_nan acc'"
proof (induction n arbitrary: acc)
  case 0
  then show ?case by simp
next
  case (Suc n)
  obtain a1 where a1: "oversample_body mo md x ra (d, acc) = (d, a1)" "zero_or_nan a1"
    using oversample_body_rest [OF assms Suc.prems] by blast
  show ?case using Suc.IH [OF a1(2)] a1(1) by simp
qed

lemma process_sample_rest:
  assumes "at_rest d"
  shows "\<exists>inp. process_sample L (Fin 0) d =
           (d\<lparr>randState := snd (processAGR (int_of_float (agrSmooth d)) (randState d))\<rparr>, inp, Fin 0)
         \<and> zero_or_nan inp"
proof -
  define rs where "rs = snd (processAGR (int_of_float (agrSmooth d)) (randState d))"
  define d1 where "d1 = d\<lparr>randState := rs\<rparr>"
  obtain gn where gn: "fst (processAGR (int_of_float (agrSmooth d)) (randState d)) = Fin gn"
    using processAGR_Fin by blast
  define inp where "inp = Fin 0 * Fin gn * driveSmooth d1"
  have zi: "zero_or_nan inp" unfolding inp_def by (intro zn_mult_left) simp
  have r1: "at_rest d1" using assms by (simp add: at_rest_def d1_def)
  obtain acc where acc:
    "oversample_loop (nat (oversample L)) (oversample_body (mode L) (model L) inp (resAmt L)) (d1, Fin 0)
       = (d1, acc)" "zero_or_nan acc"
    using oversample_loop_rest [OF r1 zi zn_zero] by blast
  have "zero_or_nan (acc / float_of_int (oversample L))"
    unfolding float_of_int_def using acc(2) by (rule zn_div)
  then have s: "sanitize (acc / float_of_int (oversample L)) = Fin 0" by (rule zn_sanitize)
  have "process_sample L (Fin 0) d = (d1, inp, Fin 0)"
    using gn acc(1) s
    by (simp add: process_sample_def Let_def split_beta inp_def d1_def rs_def output_saturation_zero)
  then show ?thesis using zi unfolding d1_def rs_def by blast
qed


lemma add_zero_float: "x + Fin 0 = x"
  by (cases x) simp_all

lemma frame_body_rest:
  assumes "at_rest (ls_dtc s)" "ls_bus s (in_ptr L + i) = Fin 0"
    "maxIn s = Fin 0" "maxOut s = Fin 0"
  shows "frame_body L i s =
         \<lparr>ls_dtc = (ls_dtc s)\<lparr>randState :=
              snd (processAGR (int_of_float (agrSmooth (ls_dtc s))) (randState (ls_dtc s)))\<rparr>,
          ls_bus = (ls_bus s)(out_ptr L + i :=
              (if replace L then Fin 0 else ls_bus s (out_ptr L + i))),
          maxIn = Fin 0, maxOut = Fin 0\<rparr>"
proof -
  obtain inp where p: "process_sample L (Fin 0) (ls_dtc s) =
      ((ls_dtc s)\<lparr>randState :=
          snd (processAGR (int_of_float (agrSmooth (ls_dtc s))) (randState (ls_dtc s)))\<rparr>,
       inp, Fin 0)" and zi: "zero_or_nan inp"
    using process_sample_rest [OF assms(1)] by blast
  have "\<not> Fin 0 < \<bar>inp\<bar>" using zi by (intro zn_not_greater zn_abs)
  then show ?thesis
    using p assms(2,3,4) by (simp add: frame_body_def Let_def add_zero_float)
qed

lemma frame_loop_rest:
  assumes "at_rest (ls_dtc s)" "maxIn s = Fin 0" "maxOut s = Fin 0"
    "\<And>j. i \<le> j \<Longrightarrow> j < i + int n \<Longrightarrow> ls_bus s (in_ptr L + j) = Fin 0"
  shows "at_rest (ls_dtc (frame_loop L i n s))
       \<and> maxIn (frame_loop L i n s) = Fin 0 \<and> maxOut (frame_loop L i n s) = Fin 0
       \<and> inputLevel (ls_dtc (frame_loop L i n s)) = inputLevel (ls_dtc s)
       \<and> outputLevel (ls_dtc (frame_loop L i n s)) = outputLevel (ls_dtc s)
       \<and> ls_bus (frame_loop L i n s) =
           (\<lambda>x. if replace L \<and> out_ptr L + i \<le> x \<and> x < out_ptr L + i + int n then Fin 0
                else ls_bus s x)"
  using assms
proof (induction n arbitrary: i s)
  case 0
  then show ?case by (auto simp add: fun_eq_iff)
next
  case (Suc n)
  define s1 where "s1 = frame_body L i s"
  have in0: "ls_bus s (in_ptr L + i) = Fin 0" using Suc.prems(4) [of i] by simp
  have s1: "s1 = \<lparr>ls_dtc = (ls_dtc s)\<lparr>randState :=
              snd (processAGR (int_of_float (agrSmooth (ls_dtc s))) (randState (ls_dtc s)))\<rparr>,
          ls_bus = (ls_bus s)(out_ptr L + i :=
              (if replace L then Fin 0 else ls_bus s (out_ptr L + i))),
          maxIn = Fin 0, maxOut = Fin 0\<rparr>"
    unfolding s1_def using Suc.prems(1) in0 Suc.prems(2,3) by (rule frame_body_rest)
  have r1: "at_rest (ls_dtc s1)" using Suc.prems(1) by (simp add: s1 at_rest_def)
  have m1: "maxIn s1 = Fin 0" "maxOut s1 = Fin 0" by (simp_all add: s1)
  have b1: "ls_bus s1 (in_ptr L + j) = Fin 0" if "i + 1 \<le> j" "j < i + 1 + int n" for j
  proof -
    have "ls_bus s (in_ptr L + j) = Fin 0" using that Suc.prems(4) [of j] by simp
    then show ?thesis by (auto simp add: s1)
  qed
  have ih: "at_rest (ls_dtc (frame_loop L (i + 1) n s1))
       \<and> maxIn (frame_loop L (i + 1) n s1) = Fin 0 \<and> maxOut (frame_loop L (i + 1) n s1) = Fin 0
       \<and> inputLevel (ls_dtc (frame_loop L (i + 1) n s1)) = inputLevel (ls_dtc s1)
       \<and> outputLevel (ls_dtc (frame_loop L (i + 1) n s1)) = outputLevel (ls_dtc s1)
       \<and> ls_bus (frame_loop L (i + 1) n s1) =
           (\<lambda>x. if replace L \<and> out_ptr L + (i + 1) \<le> x \<and> x < out_ptr L + (i + 1) + int n then Fin 0
                else ls_bus s1 x)"
    using r1 m1 b1 by (rule Suc.IH)
  have bus: "(\<lambda>x. if replace L \<and> out_ptr L + (i + 1) \<le> x \<and> x < out_ptr L + (i + 1) + int n then Fin 0
                else ls_bus s1 x) =
        (\<lambda>x. if replace L \<and> out_ptr L + i \<le> x \<and> x < out_ptr L + i + int (Suc n) then Fin 0
                else ls_bus s x)"
    by (auto simp add: s1 fun_eq_iff)
  have lv: "inputLevel (ls_dtc s1) = inputLevel (ls_dtc s)"
      "outputLevel (ls_dtc s1) = outputLevel (ls_dtc s)"
    by (simp_all add: s1)
  show ?case
    using ih unfolding bus lv by (simp add: s1_def)
qed
lemma step_rest:
  assumes "at_rest (dtc pThis)"
    and "inputLevel (dtc pThis) = Fin a" and "outputLevel (dtc pThis) = Fin b"
    and "silent_input \<lparr>blk_params = v pThis, blk_bus = bus, blk_numFramesBy4 = nfb4\<rparr>"
  shows "at_rest (dtc (fst (step sr pThis bus nfb4)))
       \<and> inputLevel (dtc (fst (step sr pThis bus nfb4))) = Fin (a * 0.95)
       \<and> outputLevel (dtc (fst (step sr pThis bus nfb4))) = Fin (b * 0.95)
       \<and> snd (step sr pThis bus nfb4)
           = silent_output \<lparr>blk_params = v pThis, blk_bus = bus, blk_numFramesBy4 = nfb4\<rparr>"
proof -
  define d where "d = fst (step_prepare sr pThis bus nfb4)"
  define L where "L = snd (step_prepare sr pThis bus nfb4)"
  define s0 where "s0 = \<lparr>ls_dtc = d, ls_bus = bus, maxIn = Fin 0, maxOut = Fin 0\<rparr>"
  define s where "s = frame_loop L 0 (nat (numFrames L)) s0"
  have L: "numFrames L = nfb4 * 4" "in_ptr L = (kParamInput (v pThis) - 1) * (nfb4 * 4)"
    "out_ptr L = (kParamOutput (v pThis) - 1) * (nfb4 * 4)"
    "replace L = (kParamOutputMode (v pThis) \<noteq> 0)"
    by (simp_all add: L_def step_prepare_locals)
  have r0: "at_rest (ls_dtc s0)"
    using assms(1) by (simp add: s0_def d_def at_rest_def step_prepare_dtc)
  have m0: "maxIn s0 = Fin 0" "maxOut s0 = Fin 0" by (simp_all add: s0_def)
  have b0: "ls_bus s0 (in_ptr L + j) = Fin 0" if "0 \<le> j" "j < 0 + int (nat (numFrames L))" for j
    using that assms(4) by (auto simp add: silent_input_def s0_def L split: if_splits)
  have fl: "at_rest (ls_dtc s) \<and> maxIn s = Fin 0 \<and> maxOut s = Fin 0
       \<and> inputLevel (ls_dtc s) = inputLevel (ls_dtc s0)
       \<and> outputLevel (ls_dtc s) = outputLevel (ls_dtc s0)
       \<and> ls_bus s =
           (\<lambda>x. if replace L \<and> out_ptr L + 0 \<le> x \<and> x < out_ptr L + 0 + int (nat (numFrames L))
                then Fin 0 else ls_bus s0 x)"
    unfolding s_def using r0 m0 b0 by (rule frame_loop_rest)
  have lv: "inputLevel (ls_dtc s) = Fin a" "outputLevel (ls_dtc s) = Fin b"
    using fl assms(2,3) by (simp_all add: s0_def d_def step_prepare_dtc)
  have st: "step sr pThis bus nfb4 =
        (pThis\<lparr>dtc := (ls_dtc s)\<lparr>inputLevel := inputLevel (ls_dtc s) * Fin 0.95 + maxIn s * Fin 0.05,
                 outputLevel := outputLevel (ls_dtc s) * Fin 0.95 + maxOut s * Fin 0.05\<rparr>\<rparr>, ls_bus s)"
    by (simp add: step_def Let_def split_beta s_def s0_def d_def L_def)
  have bus: "ls_bus s = silent_output \<lparr>blk_params = v pThis, blk_bus = bus, blk_numFramesBy4 = nfb4\<rparr>"
    using fl by (auto simp add: silent_output_def L s0_def fun_eq_iff)
  have r: "at_rest (ls_dtc s)" and m: "maxIn s = Fin 0" "maxOut s = Fin 0"
    using fl by simp_all
  show ?thesis
    using r by (simp add: st at_rest_def lv m bus)
qed
lemma run_blocks_rest:
  assumes "at_rest (dtc pThis)"
    and "inputLevel (dtc pThis) = Fin a" and "outputLevel (dtc pThis) = Fin b"
    and "\<And>blk. blk \<in> set bs \<Longrightarrow> silent_input blk"
  shows "at_rest (dtc (fst (run_blocks sr pThis bs)))
       \<and> inputLevel (dtc (fst (run_blocks sr pThis bs))) = Fin (a * 0.95 ^ length bs)
       \<and> outputLevel (dtc (fst (run_blocks sr pThis bs))) = Fin (b * 0.95 ^ length bs)
       \<and> snd (run_blocks sr pThis bs) = map silent_output bs"
  using assms
proof (induction bs arbitrary: pThis a b)
  case Nil
  then show ?case by simp
next
  case (Cons blk bs)
  define p0 where "p0 = pThis\<lparr>v := blk_params blk\<rparr>"
  define p1 where "p1 = fst (step sr p0 (blk_bus blk) (blk_numFramesBy4 blk))"
  have blk: "\<lparr>blk_params = v p0, blk_bus = blk_bus blk, blk_numFramesBy4 = blk_numFramesBy4 blk\<rparr> = blk"
    by (simp add: p0_def)
  have si: "silent_input \<lparr>blk_params = v p0, blk_bus = blk_bus blk,
                          blk_numFramesBy4 = blk_numFramesBy4 blk\<rparr>"
    unfolding blk using Cons.prems(4) by simp
  have r0: "at_rest (dtc p0)" "inputLevel (dtc p0) = Fin a" "outputLevel (dtc p0) = Fin b"
    using Cons.prems(1,2,3) by (simp_all add: p0_def)
  have s1: "at_rest (dtc p1) \<and> inputLevel (dtc p1) = Fin (a * 0.95)
       \<and> outputLevel (dtc p1) = Fin (b * 0.95)
       \<and> snd (step sr p0 (blk_bus blk) (blk_numFramesBy4 blk)) = silent_output blk"
    unfolding p1_def using step_rest [OF r0 si, of sr] unfolding blk .
  have rest: "\<And>c. c \<in> set bs \<Longrightarrow> silent_input c" using Cons.prems(4) by simp
  have ih: "at_rest (dtc (fst (run_blocks sr p1 bs)))
       \<and> inputLevel (dtc (fst (run_blocks sr p1 bs))) = Fin (a * 0.95 * 0.95 ^ length bs)
       \<and> outputLevel (dtc (fst (run_blocks sr p1 bs))) = Fin (b * 0.95 * 0.95 ^ length bs)
       \<and> snd (run_blocks sr p1 bs) = map silent_output bs"
    using s1 rest by (intro Cons.IH) simp_all
  have rb: "run_blocks sr pThis (blk # bs) =
        (fst (run_blocks sr p1 bs),
         snd (step sr p0 (blk_bus blk) (blk_numFramesBy4 blk)) # snd (run_blocks sr p1 bs))"
    by (simp add: Let_def split_beta p0_def p1_def)
  show ?case
    unfolding rb using ih s1 by simp
qed

text \<open>
  Claim C7. From a filter at rest with finite level meters, any number of silent blocks
  (whatever their parameters, sizes and other buses) leaves the filter at rest; a sample
  of zero input then gives the output sample \<open>0.0\<close>; every block leaves zeros on its
  output bus when the output replaces the bus and leaves the bus memory as it was when the
  output is added; and each block multiplies both level meters by \<open>0.95\<close>.
\<close>

theorem silence:
  assumes "lp (dtc pThis) = Fin 0" and "bp (dtc pThis) = Fin 0" and "hp (dtc pThis) = Fin 0"
    and "inputLevel (dtc pThis) = Fin a" and "outputLevel (dtc pThis) = Fin b"
    and "\<forall>blk \<in> set bs. silent_input blk"
  shows "lp (dtc (fst (run_blocks sr pThis bs))) = Fin 0
       \<and> bp (dtc (fst (run_blocks sr pThis bs))) = Fin 0
       \<and> hp (dtc (fst (run_blocks sr pThis bs))) = Fin 0
       \<and> snd (snd (process_sample L (Fin 0) (dtc (fst (run_blocks sr pThis bs))))) = Fin 0
       \<and> snd (run_blocks sr pThis bs) = map silent_output bs
       \<and> inputLevel (dtc (fst (run_blocks sr pThis bs))) = Fin (a * 0.95 ^ length bs)
       \<and> outputLevel (dtc (fst (run_blocks sr pThis bs))) = Fin (b * 0.95 ^ length bs)"
proof -
  have r: "at_rest (dtc pThis)" using assms(1,2,3) by (simp add: at_rest_def)
  have si: "\<And>blk. blk \<in> set bs \<Longrightarrow> silent_input blk" using assms(6) by blast
  have rb: "at_rest (dtc (fst (run_blocks sr pThis bs)))
       \<and> inputLevel (dtc (fst (run_blocks sr pThis bs))) = Fin (a * 0.95 ^ length bs)
       \<and> outputLevel (dtc (fst (run_blocks sr pThis bs))) = Fin (b * 0.95 ^ length bs)
       \<and> snd (run_blocks sr pThis bs) = map silent_output bs"
    using r assms(4,5) si by (rule run_blocks_rest)
  then have "at_rest (dtc (fst (run_blocks sr pThis bs)))" by simp
  then obtain d' inp where
    "process_sample L (Fin 0) (dtc (fst (run_blocks sr pThis bs))) = (d', inp, Fin 0)"
    using process_sample_rest by blast
  then have "snd (snd (process_sample L (Fin 0) (dtc (fst (run_blocks sr pThis bs))))) = Fin 0"
    by simp
  then show ?thesis using rb by (simp add: at_rest_def)
qed

lemma example_instance_dtc:
  "lp (dtc example_instance) = Fin 0" "bp (dtc example_instance) = Fin 0"
  "hp (dtc example_instance) = Fin 0"
  "inputLevel (dtc example_instance) = Fin 0" "outputLevel (dtc example_instance) = Fin 0"
  by (simp_all add: example_instance_def construct_def Let_def calculateFilterCoeffs_fields zero_DTC_def)

theorem silence_witness:
  "lp (dtc (fst (run_blocks (Fin 48000) example_instance silent_blocks))) = Fin 0
   \<and> bp (dtc (fst (run_blocks (Fin 48000) example_instance silent_blocks))) = Fin 0
   \<and> hp (dtc (fst (run_blocks (Fin 48000) example_instance silent_blocks))) = Fin 0
   \<and> snd (run_blocks (Fin 48000) example_instance silent_blocks) = map silent_output silent_blocks
   \<and> inputLevel (dtc (fst (run_blocks (Fin 48000) example_instance silent_blocks))) = Fin 0
   \<and> outputLevel (dtc (fst (run_blocks (Fin 48000) example_instance silent_blocks))) = Fin 0"
proof -
  have h: "\<forall>blk \<in> set silent_blocks. silent_input blk"
    by (simp add: silent_blocks_def silent_input_def example_params_def)
  from silence [OF example_instance_dtc h, of "Fin 48000"]
  show ?thesis by simp
qed


section \<open>Selectors outside their ranges\<close>

lemma accumulate_unknown: "mo < 0 \<or> 3 < mo \<Longrightarrow> accumulate mo acc a b c = acc"
  by (auto simp add: accumulate_def)

lemma oversample_body_unknown:
  "mo < 0 \<or> 3 < mo \<Longrightarrow> snd (oversample_body mo md x ra s) = snd s"
  by (simp add: oversample_body_def Let_def split_beta accumulate_unknown)

lemma oversample_loop_unknown:
  "mo < 0 \<or> 3 < mo \<Longrightarrow> snd (oversample_loop n (oversample_body mo md x ra) s) = snd s"
  by (induction n arbitrary: s) (simp_all add: oversample_body_unknown)

lemma process_sample_unknown_mode:
  assumes "mode L < 0 \<or> 3 < mode L"
  shows "snd (snd (process_sample L x d)) = Fin 0"
proof -
  have "zero_or_nan (Fin 0 / float_of_int (oversample L))"
    unfolding float_of_int_def by (rule zn_div) simp
  then have "sanitize (Fin 0 / float_of_int (oversample L)) = Fin 0" by (rule zn_sanitize)
  then show ?thesis
    using assms
    by (simp add: process_sample_def Let_def split_beta oversample_loop_unknown output_saturation_zero)
qed

lemma unknown_model_saturation:
  "md < 0 \<or> 2 < md \<Longrightarrow>
   input_saturation md x ra = fastTanh x \<and> output_saturation md y = fastTanh y"
  by (auto simp add: input_saturation_def output_saturation_def)

text \<open>
  Claim C2. A model selector outside \<open>0..2\<close> selects \<open>fastTanh\<close> in both model
  switches. A mode selector outside \<open>0..3\<close> matches no case of the mode switch, which
  has no default: nothing is accumulated and the output sample is \<open>0.0\<close>, not the
  lowpass output.
\<close>

theorem unknown_selectors:
  "(model L < 0 \<or> 2 < model L \<longrightarrow>
      input_saturation (model L) x ra = fastTanh x
      \<and> output_saturation (model L) y = fastTanh y)
   \<and> (mode L < 0 \<or> 3 < mode L \<longrightarrow> snd (snd (process_sample L x d)) = Fin 0)"
  using unknown_model_saturation [of "model L" x ra y] process_sample_unknown_mode [of L x d]
  by blast

text \<open>
  At mode 4 the sample \<open>1.0\<close> gives the output \<open>0.0\<close>, where the lowpass mode gives
  \<open>245287 / 1275588\<close>.
\<close>

theorem unknown_selectors_witness:
  "3 < mode (example_locals\<lparr>mode := 4\<rparr>)
   \<and> snd (snd (process_sample (example_locals\<lparr>mode := 4\<rparr>) (Fin 1) example_dtc)) = Fin 0
   \<and> snd (snd (process_sample example_locals (Fin 1) example_dtc)) = Fin (245287 / 1275588)"
proof -
  have h: "3 < mode (example_locals\<lparr>mode := 4\<rparr>)" by (simp add: example_locals_def)
  have lowpass: "snd (snd (process_sample example_locals (Fin 1) example_dtc)) = Fin (245287 / 1275588)"
    by (simp add: process_sample_def example_locals_def example_dtc_def zero_DTC_def
        int_of_float_def processAGR_def agr_attenuation_def float_of_int_def Let_def
        oversample_body_def input_saturation_def fastTanh_Fin accumulate_def minus_float_def
        softClamp_def sanitize_cases output_saturation_def)
  from unknown_selectors [of "example_locals\<lparr>mode := 4\<rparr>" "Fin 1" "Fin 0" "Fin 0" example_dtc] h lowpass
  show ?thesis by blast
qed


section \<open>Rounding to binary32\<close>

lemma rne_cases: "rne r = \<lfloor>r\<rfloor> \<or> rne r = \<lfloor>r\<rfloor> + 1"
  by (simp add: rne_def Let_def)

lemma rne_nearest: "\<bar>of_int (rne r) - r\<bar> \<le> 1 / 2"
proof -
  define f where "f = \<lfloor>r\<rfloor>"
  have f: "of_int f \<le> r" "r < of_int f + 1" unfolding f_def by linarith+
  have "rne r = (if r - of_int f < 1 / 2 then f else if 1 / 2 < r - of_int f then f + 1
                 else if even f then f else f + 1)"
    by (simp add: rne_def Let_def f_def)
  then show ?thesis
    using f by (auto simp add: abs_if split: if_splits)
qed

lemma rne_of_int [simp]: "rne (of_int n) = n"
  by (simp add: rne_def)

lemma rne_mono: assumes "r \<le> r'" shows "rne r \<le> rne r'"
proof (cases "\<lfloor>r\<rfloor> = \<lfloor>r'\<rfloor>")
  case True
  then show ?thesis using assms by (auto simp add: rne_def Let_def)
next
  case False
  then have "\<lfloor>r\<rfloor> < \<lfloor>r'\<rfloor>" using floor_mono [OF assms] by linarith
  then have "\<lfloor>r\<rfloor> + 1 \<le> \<lfloor>r'\<rfloor>" by linarith
  moreover have "rne r \<le> \<lfloor>r\<rfloor> + 1" using rne_cases [of r] by linarith
  moreover have "\<lfloor>r'\<rfloor> \<le> rne r'" using rne_cases [of r'] by linarith
  ultimately show ?thesis by linarith
qed

lemma rne_minus: "rne (- r) = - rne r"
proof (cases "r = of_int \<lfloor>r\<rfloor>")
  case True
  then obtain n where "r = of_int n" ..
  then have "- r = of_int (- n)" by simp
  then show ?thesis unfolding \<open>r = of_int n\<close> by (simp only: rne_of_int)
next
  case False
  then have lt: "of_int \<lfloor>r\<rfloor> < r" "r < of_int \<lfloor>r\<rfloor> + 1" by linarith+
  define f where "f = \<lfloor>r\<rfloor>"
  have f: "of_int f < r" "r < of_int f + 1" using lt by (simp_all add: f_def)
  have fl: "\<lfloor>- r\<rfloor> = - f - 1"
  proof (rule floor_unique)
    show "of_int (- f - 1) \<le> - r" using f by simp
    show "- r < of_int (- f - 1) + 1" using f by simp
  qed
  have a: "rne r = (if r - of_int f < 1 / 2 then f else if 1 / 2 < r - of_int f then f + 1
                 else if even f then f else f + 1)"
    by (simp add: rne_def Let_def f_def)
  have b: "rne (- r) = (if - r - of_int (- f - 1) < 1 / 2 then - f - 1
                 else if 1 / 2 < - r - of_int (- f - 1) then - f - 1 + 1
                 else if even (- f - 1) then - f - 1 else - f - 1 + 1)"
    by (simp only: rne_def Let_def fl)
  show ?thesis
    unfolding a b using f by (auto split: if_splits)
qed

lemma expo32_minus [simp]: "expo32 (- t) = expo32 t"
  by (simp add: expo32_def)

lemma expo32_abs [simp]: "expo32 \<bar>t\<bar> = expo32 t"
  by (simp add: expo32_def)

lemma expo32_ge: "- 126 \<le> expo32 t"
  by (simp add: expo32_def)

lemma expo32_eq:
  assumes "2 powr of_int e \<le> \<bar>t\<bar>" "\<bar>t\<bar> < 2 powr (of_int e + 1)" "- 126 \<le> e"
  shows "expo32 t = e"
proof -
  have "0 < \<bar>t\<bar>" using assms(1) powr_gt_zero [of 2 "of_int e"] by linarith
  then have "\<lfloor>log 2 \<bar>t\<bar>\<rfloor> = e"
    using assms(1,2) by (simp add: floor_log_eq_powr_iff)
  then show ?thesis using assms(3) by (simp add: expo32_def)
qed

lemma expo32_subnormal:
  assumes "\<bar>t\<bar> < 2 powr (- 126)" "t \<noteq> 0"
  shows "expo32 t = - 126"
proof -
  have pos: "0 < \<bar>t\<bar>" using assms(2) by simp
  have "log 2 \<bar>t\<bar> < - 126"
    using assms(1) pos by (simp add: log_less_iff)
  then have "\<lfloor>log 2 \<bar>t\<bar>\<rfloor> < - 126" by (simp add: floor_less_iff)
  then show ?thesis by (simp add: expo32_def)
qed

lemma expo32_normal:
  assumes "2 powr (- 126) \<le> \<bar>t\<bar>"
  shows "2 powr of_int (expo32 t) \<le> \<bar>t\<bar>" "\<bar>t\<bar> < 2 powr (of_int (expo32 t) + 1)"
proof -
  have pos: "0 < \<bar>t\<bar>" using assms powr_gt_zero [of 2 "- 126"] by linarith
  have "- 126 \<le> log 2 \<bar>t\<bar>" using assms pos by (simp add: le_log_iff)
  then have "- 126 \<le> \<lfloor>log 2 \<bar>t\<bar>\<rfloor>" by (simp add: le_floor_iff)
  then have e: "expo32 t = \<lfloor>log 2 \<bar>t\<bar>\<rfloor>" by (simp add: expo32_def)
  have "\<lfloor>log 2 \<bar>t\<bar>\<rfloor> = \<lfloor>log 2 \<bar>t\<bar>\<rfloor>" ..
  then have "2 powr of_int \<lfloor>log 2 \<bar>t\<bar>\<rfloor> \<le> \<bar>t\<bar> \<and> \<bar>t\<bar> < 2 powr (of_int \<lfloor>log 2 \<bar>t\<bar>\<rfloor> + 1)"
    using pos by (subst (asm) floor_log_eq_powr_iff) simp_all
  then show "2 powr of_int (expo32 t) \<le> \<bar>t\<bar>" "\<bar>t\<bar> < 2 powr (of_int (expo32 t) + 1)"
    unfolding e by simp_all
qed

lemma expo32_upper: "t \<noteq> 0 \<Longrightarrow> \<bar>t\<bar> < 2 powr (of_int (expo32 t) + 1)"
proof (cases "2 powr (- 126) \<le> \<bar>t\<bar>")
  case True
  then show ?thesis by (rule expo32_normal)
next
  case False
  assume "t \<noteq> 0"
  then have e: "expo32 t = - 126" using False by (intro expo32_subnormal) simp_all
  have "\<bar>t\<bar> < 2 powr (- 126)" using False by simp
  also have "(2::real) powr (- 126) \<le> 2 powr (- 125)" by simp
  finally have "\<bar>t\<bar> < 2 powr (- 125)" .
  then show ?thesis by (simp add: e)
qed

lemma expo32_mono:
  assumes "0 < t" "t \<le> t'"
  shows "expo32 t \<le> expo32 t'"
proof -
  have "log 2 \<bar>t\<bar> \<le> log 2 \<bar>t'\<bar>" using assms by simp
  then have "\<lfloor>log 2 \<bar>t\<bar>\<rfloor> \<le> \<lfloor>log 2 \<bar>t'\<bar>\<rfloor>" by (rule floor_mono)
  then show ?thesis by (simp add: expo32_def)
qed

lemma quantum_pos: "0 < quantum t"
  by (simp add: quantum_def)

lemma round32_quantum: "t \<noteq> 0 \<Longrightarrow> round32 t = quantum t * of_int (rne (t / quantum t))"
  by (simp add: round32_def quantum_def Let_def)

lemma quantum_pow: "quantum t * 8388608 = 2 powr of_int (expo32 t)"
proof -
  have "(2::real) powr of_int (expo32 t) = 2 powr (of_int (expo32 t - 23) + 23)" by simp
  also have "\<dots> = 2 powr of_int (expo32 t - 23) * 2 powr 23" by (rule powr_add)
  finally show ?thesis by (simp add: quantum_def)
qed

lemma quantum_pow_Suc: "quantum t * 16777216 = 2 powr (of_int (expo32 t) + 1)"
proof -
  have "(of_int (expo32 t) + 1 :: real) = of_int (expo32 t - 23) + 24" by simp
  then have "(2::real) powr (of_int (expo32 t) + 1) = 2 powr (of_int (expo32 t - 23) + 24)"
    by (rule arg_cong)
  also have "\<dots> = 2 powr of_int (expo32 t - 23) * 2 powr 24" by (rule powr_add)
  finally show ?thesis by (simp add: quantum_def)
qed

lemma round32_minus: "round32 (- t) = - round32 t"
  by (simp add: round32_def Let_def rne_minus)

lemma round32_zero [simp]: "round32 0 = 0"
  by (simp add: round32_def)

lemma round32_pos_upper:
  assumes "0 < t"
  shows "round32 t \<le> 2 powr (of_int (expo32 t) + 1)"
proof -
  have "t < quantum t * 16777216" using expo32_upper [of t] assms by (simp add: quantum_pow_Suc)
  then have "t / quantum t \<le> 16777216" using quantum_pos [of t] by (simp add: pos_divide_le_eq mult.commute)
  then have "rne (t / quantum t) \<le> rne (of_int (16777216))" by (intro rne_mono) simp
  then have "rne (t / quantum t) \<le> 16777216" by (simp only: rne_of_int)
  then have "(of_int (rne (t / quantum t)) :: real) \<le> of_int (16777216)" by (simp only: of_int_le_iff)
  then have "quantum t * of_int (rne (t / quantum t)) \<le> quantum t * 16777216"
    using quantum_pos [of t] by simp
  then show ?thesis using assms by (simp add: round32_quantum quantum_pow_Suc)
qed

lemma round32_pos_lower:
  assumes "2 powr (- 126) \<le> t"
  shows "2 powr of_int (expo32 t) \<le> round32 t"
proof -
  have pos: "0 < t" using assms powr_gt_zero [of 2 "- 126"] by linarith
  have "2 powr of_int (expo32 t) \<le> \<bar>t\<bar>" using assms pos by (intro expo32_normal) simp
  then have "quantum t * 8388608 \<le> t" using pos by (simp add: quantum_pow)
  then have "8388608 \<le> t / quantum t" using quantum_pos [of t] by (simp add: pos_le_divide_eq mult.commute)
  then have "rne (of_int (8388608)) \<le> rne (t / quantum t)" by (intro rne_mono) simp
  then have "8388608 \<le> rne (t / quantum t)" by (simp only: rne_of_int)
  then have "(of_int (8388608) :: real) \<le> of_int (rne (t / quantum t))" by (simp only: of_int_le_iff)
  then have "quantum t * 8388608 \<le> quantum t * of_int (rne (t / quantum t))"
    using quantum_pos [of t] by simp
  then show ?thesis using pos by (simp add: round32_quantum quantum_pow)
qed

lemma round32_nonneg: assumes "0 \<le> t" shows "0 \<le> round32 t"
proof (cases "t = 0")
  case True then show ?thesis by simp
next
  case False
  then have "0 \<le> t / quantum t" using assms quantum_pos [of t] by simp
  then have "rne (of_int 0) \<le> rne (t / quantum t)" by (intro rne_mono) simp
  then have "0 \<le> rne (t / quantum t)" by (simp only: rne_of_int)
  then show ?thesis using False quantum_pos [of t] by (simp add: round32_quantum)
qed

lemma round32_mono_pos:
  assumes "0 < t" "t \<le> t'"
  shows "round32 t \<le> round32 t'"
proof (cases "expo32 t = expo32 t'")
  case True
  then have q: "quantum t = quantum t'" by (simp add: quantum_def)
  have "t / quantum t' \<le> t' / quantum t'"
    using assms(2) quantum_pos [of t'] by (simp add: divide_right_mono)
  then have "rne (t / quantum t') \<le> rne (t' / quantum t')" by (rule rne_mono)
  then have "quantum t' * of_int (rne (t / quantum t')) \<le> quantum t' * of_int (rne (t' / quantum t'))"
    using quantum_pos [of t'] by simp
  then show ?thesis using assms by (simp add: round32_quantum q)
next
  case False
  then have lt: "expo32 t < expo32 t'" using expo32_mono [OF assms] by linarith
  then have n: "- 126 < expo32 t'" using expo32_ge [of t] by linarith
  have pos': "0 < t'" using assms by linarith
  have "2 powr (- 126) \<le> t'"
  proof (rule ccontr)
    assume "\<not> 2 powr (- 126) \<le> t'"
    then have "expo32 t' = - 126" using pos' by (intro expo32_subnormal) simp_all
    then show False using n by simp
  qed
  then have lo: "2 powr of_int (expo32 t') \<le> round32 t'" by (rule round32_pos_lower)
  have up: "round32 t \<le> 2 powr (of_int (expo32 t) + 1)" using assms(1) by (rule round32_pos_upper)
  have "(of_int (expo32 t) + 1 :: real) \<le> of_int (expo32 t')" using lt by linarith
  then have "(2::real) powr (of_int (expo32 t) + 1) \<le> 2 powr of_int (expo32 t')" by simp
  then show ?thesis using lo up by linarith
qed

lemma round32_mono:
  assumes "t \<le> t'"
  shows "round32 t \<le> round32 t'"
proof -
  consider "0 < t" | "t \<le> 0" "0 \<le> t'" | "t' < 0" by linarith
  then show ?thesis
  proof cases
    case 1
    then show ?thesis using assms by (rule round32_mono_pos)
  next
    case 2
    have "0 \<le> round32 (- t)" using 2(1) by (intro round32_nonneg) simp
    then have "round32 t \<le> 0" by (simp add: round32_minus)
    moreover have "0 \<le> round32 t'" using 2(2) by (rule round32_nonneg)
    ultimately show ?thesis by linarith
  next
    case 3
    have "round32 (- t') \<le> round32 (- t)" using 3 assms by (intro round32_mono_pos) simp_all
    then show ?thesis by (simp add: round32_minus)
  qed
qed

lemma round32_rel_error:
  assumes "2 powr (- 126) \<le> \<bar>t\<bar>"
  shows "\<bar>round32 t - t\<bar> \<le> \<bar>t\<bar> / 16777216"
proof -
  have nz: "t \<noteq> 0" using assms powr_gt_zero [of 2 "- 126"] by auto
  have "quantum t * 8388608 \<le> \<bar>t\<bar>" using expo32_normal(1) [OF assms] by (simp add: quantum_pow)
  then have q: "quantum t / 2 \<le> \<bar>t\<bar> / 16777216" by simp
  have "round32 t - t = quantum t * (of_int (rne (t / quantum t)) - t / quantum t)"
    using nz quantum_pos [of t] by (simp add: round32_quantum algebra_simps)
  then have "\<bar>round32 t - t\<bar> = quantum t * \<bar>of_int (rne (t / quantum t)) - t / quantum t\<bar>"
    using quantum_pos [of t] by (simp add: abs_mult)
  also have "\<dots> \<le> quantum t * (1 / 2)"
    using quantum_pos [of t] rne_nearest [of "t / quantum t"] by (intro mult_left_mono) simp_all
  finally show ?thesis using q by simp
qed

lemma round32_eval:
  assumes "2 powr of_int e \<le> \<bar>t\<bar>" "\<bar>t\<bar> < 2 powr (of_int e + 1)" "- 126 \<le> e"
  shows "round32 t = 2 powr of_int (e - 23) * of_int (rne (t / 2 powr of_int (e - 23)))"
proof -
  have "t \<noteq> 0" using assms(1) powr_gt_zero [of 2 "of_int e"] by auto
  then show ?thesis using expo32_eq [OF assms] by (simp add: round32_def Let_def)
qed


section \<open>Rounded constants\<close>

lemma rne_numeral [simp]: "rne (numeral n) = numeral n" "rne 0 = 0" "rne 1 = 1"
  using rne_of_int [of "numeral n"] rne_of_int [of 0] rne_of_int [of 1] by simp_all

lemma round32_consts:
  "round32 1 = 1" "round32 4 = 4" "round32 9 = 9" "round32 27 = 27" "round32 36 = 36"
  "round32 81 = 81" "round32 108 = 108" "round32 (1 / 2) = 1 / 2" "round32 (1 / 4) = 1 / 4"
  "round32 (109 / 4) = 109 / 4" "round32 (109 / 8) = 109 / 8"
  using round32_eval [of 0 1] round32_eval [of 2 4] round32_eval [of 3 9] round32_eval [of 4 27]
    round32_eval [of 5 36] round32_eval [of 6 81] round32_eval [of 6 108]
    round32_eval [of "- 1" "1 / 2"] round32_eval [of "- 2" "1 / 4"]
    round32_eval [of 4 "109 / 4"] round32_eval [of 3 "109 / 8"]
  by (simp_all add: powr_neg_numeral)


section \<open>The saturation functions in binary32\<close>

lemma tanh_steps:
  "round32 (12512681 / 4194304 * (12512681 / 4194304)) = 9332131 / 1048576"
  "round32 (27 + 9332131 / 1048576) = 9410921 / 262144"
  "round32 (12512681 / 4194304 * (9410921 / 262144)) = 1754699 / 16384"
  "round32 (9 * (9332131 / 1048576)) = 10498647 / 131072"
  "round32 (27 + 10498647 / 131072) = 14037591 / 131072"
  "round32 (1754699 / 16384 / (14037591 / 131072)) = 8388609 / 8388608"
  using round32_eval [of 3 "12512681 / 4194304 * (12512681 / 4194304)"]
    round32_eval [of 5 "27 + 9332131 / 1048576"]
    round32_eval [of 6 "12512681 / 4194304 * (9410921 / 262144)"]
    round32_eval [of 6 "9 * (9332131 / 1048576)"]
    round32_eval [of 6 "27 + 10498647 / 131072"]
    round32_eval [of 0 "1754699 / 16384 / (14037591 / 131072)"]
  by (simp_all add: powr_neg_numeral rne_def)

lemma fastTanh32_above_one:
  "fastTanh32 (Fin (12512681 / 4194304)) = Fin (8388609 / 8388608)"
proof -
  have c: "\<not> Fin 3 < Fin (12512681 / 4194304)" "\<not> Fin (12512681 / 4194304) < Fin (- 3)"
    by simp_all
  have a1: "rnd (Fin (12512681 / 4194304) * Fin (12512681 / 4194304)) = Fin (9332131 / 1048576)"
    using tanh_steps(1) by (simp add: rnd_def fround_def)
  have a2: "rnd (Fin 27 + Fin (9332131 / 1048576)) = Fin (9410921 / 262144)"
    using tanh_steps(2) by (simp add: rnd_def fround_def)
  have a3: "rnd (Fin (12512681 / 4194304) * Fin (9410921 / 262144)) = Fin (1754699 / 16384)"
    using tanh_steps(3) by (simp add: rnd_def fround_def)
  have a4: "rnd (Fin 9 * Fin (9332131 / 1048576)) = Fin (10498647 / 131072)"
    using tanh_steps(4) by (simp add: rnd_def fround_def)
  have a5: "rnd (Fin 27 + Fin (10498647 / 131072)) = Fin (14037591 / 131072)"
    using tanh_steps(5) by (simp add: rnd_def fround_def)
  have a6: "rnd (Fin (1754699 / 16384) / Fin (14037591 / 131072)) = Fin (8388609 / 8388608)"
    using tanh_steps(6) by (simp add: rnd_def fround_def)
  show ?thesis
    unfolding fastTanh32_def Let_def by (simp only: c if_False a1 a2 a3 a4 a5 a6)
qed

lemma round32_between:
  assumes "lo \<le> t" "t \<le> hi" "round32 lo = lo" "round32 hi = hi"
  shows "lo \<le> round32 t" "round32 t \<le> hi"
  using round32_mono [OF assms(1)] round32_mono [OF assms(2)] assms(3,4) by simp_all

lemma rnd_Fin: "\<bar>round32 t\<bar> < 2 ^ 128 \<Longrightarrow> rnd (Fin t) = Fin (round32 t)"
  by (simp add: rnd_def fround_def)

lemma rnd_unit:
  assumes "0 \<le> t" "t \<le> 1"
  shows "rnd (Fin t) = Fin (round32 t)" "0 \<le> round32 t" "round32 t \<le> 1"
proof -
  show b: "0 \<le> round32 t" "round32 t \<le> 1"
    using round32_between [OF assms, OF round32_zero round32_consts(1)] by simp_all
  then have "\<bar>round32 t\<bar> < 2 ^ 128" by simp
  then show "rnd (Fin t) = Fin (round32 t)" by (rule rnd_Fin)
qed

lemma expf32_nonpos:
  assumes "t \<le> 0"
  shows "expf32 (Fin t) = Fin (round32 (exp t))" "0 \<le> round32 (exp t)" "round32 (exp t) \<le> 1"
proof -
  have "0 \<le> exp t" "exp t \<le> 1" using assms by simp_all
  then show "expf32 (Fin t) = Fin (round32 (exp t))" "0 \<le> round32 (exp t)" "round32 (exp t) \<le> 1"
    using rnd_unit [of "exp t"] by (simp_all add: expf32_def expf_def)
qed

lemma one_minus_unit:
  assumes "0 \<le> e" "e \<le> 1"
  shows "rnd (Fin 1 - Fin e) = Fin (round32 (1 - e))" "0 \<le> round32 (1 - e)" "round32 (1 - e) \<le> 1"
  using rnd_unit [of "1 - e"] assms by (simp_all add: minus_float_def)

lemma round32_neg_half: "round32 (- (1 / 2)) = - (1 / 2)"
  using round32_minus [of "1 / 2"] by (simp add: round32_consts)

lemma half_scale:
  assumes "0 \<le> r" "r \<le> 1"
  shows "\<exists>y. rnd (Fin (- 0.5) * Fin r) = Fin y \<and> - 0.5 \<le> y \<and> y \<le> 0"
proof -
  have lo: "- (1 / 2) \<le> - (1 / 2) * r" and hi: "- (1 / 2) * r \<le> 0" using assms by simp_all
  have b: "- (1 / 2) \<le> round32 (- (1 / 2) * r)" "round32 (- (1 / 2) * r) \<le> 0"
    using round32_between [OF lo hi round32_neg_half round32_zero] by simp_all
  then have "\<bar>round32 (- (1 / 2) * r)\<bar> < 2 ^ 128" by simp
  then have "rnd (Fin (- (1 / 2) * r)) = Fin (round32 (- (1 / 2) * r))" by (rule rnd_Fin)
  then show ?thesis using b by simp
qed

lemma rnd_double_nonpos:
  assumes "x \<le> 0"
  shows "rnd (Fin 2 * Fin x) = NInf \<or> (\<exists>t. rnd (Fin 2 * Fin x) = Fin t \<and> t \<le> 0)"
proof -
  have "round32 (2 * x) \<le> 0"
    using round32_mono [of "2 * x" 0] assms by simp
  then show ?thesis by (simp add: rnd_def fround_def Let_def)
qed

lemma diodeClip32_bound: "\<exists>y. diodeClip32 (Fin x) = Fin y \<and> - 0.5 \<le> y \<and> y \<le> 1"
proof (cases "0 < x")
  case True
  then have e: "expf32 (Fin (- x)) = Fin (round32 (exp (- x)))"
      "0 \<le> round32 (exp (- x))" "round32 (exp (- x)) \<le> 1"
    using expf32_nonpos [of "- x"] by simp_all
  have "diodeClip32 (Fin x) = Fin (round32 (1 - round32 (exp (- x))))"
    using True e(1) one_minus_unit(1) [OF e(2,3)] by (simp add: diodeClip32_def)
  moreover have "0 \<le> round32 (1 - round32 (exp (- x)))" "round32 (1 - round32 (exp (- x))) \<le> 1"
    using one_minus_unit(2,3) [OF e(2,3)] by simp_all
  ultimately show ?thesis by simp
next
  case False
  then have x: "x \<le> 0" by simp
  obtain e where e: "expf32 (rnd (Fin 2 * Fin x)) = Fin e" "0 \<le> e" "e \<le> 1"
  proof -
    from rnd_double_nonpos [OF x] show ?thesis
    proof
      assume "rnd (Fin 2 * Fin x) = NInf"
      then have "expf32 (rnd (Fin 2 * Fin x)) = Fin 0"
        using rnd_unit(1) [of 0] by (simp add: expf32_def expf_def)
      then show ?thesis using that [of 0] by simp
    next
      assume "\<exists>t. rnd (Fin 2 * Fin x) = Fin t \<and> t \<le> 0"
      then obtain t where t: "rnd (Fin 2 * Fin x) = Fin t" "t \<le> 0" by blast
      show ?thesis using that [of "round32 (exp t)"] expf32_nonpos [OF t(2)] t(1) by simp
    qed
  qed
  have r: "rnd (Fin 1 - Fin e) = Fin (round32 (1 - e))" "0 \<le> round32 (1 - e)" "round32 (1 - e) \<le> 1"
    using one_minus_unit [OF e(2,3)] by simp_all
  obtain y where y: "rnd (Fin (- 0.5) * Fin (round32 (1 - e))) = Fin y" "- 0.5 \<le> y" "y \<le> 0"
    using half_scale [OF r(2,3)] by blast
  have "diodeClip32 (Fin x) = Fin y"
    using False e(1) r(1) y(1) by (simp add: diodeClip32_def)
  then show ?thesis using y(2,3) by simp
qed

lemma exp_minus_20: "exp (- 20 :: real) \<le> 1 / 33554432"
proof -
  have "(5 / 2 :: real) \<le> exp 1"
    using exp_lower_Taylor_quadratic [of "1 :: real"] by simp
  then have "(5 / 2 :: real) ^ 20 \<le> exp 1 ^ 20" by (intro power_mono) simp_all
  also have "exp (1 :: real) ^ 20 = exp 20"
    using exp_of_nat_mult [of 20 "1 :: real"] by simp
  finally have "(5 / 2 :: real) ^ 20 \<le> exp 20" .
  moreover have "(33554432 :: real) \<le> (5 / 2) ^ 20" by (simp add: power_divide)
  ultimately have "(33554432 :: real) \<le> exp 20" by linarith
  then have "1 / exp (20 :: real) \<le> 1 / 33554432" by (intro divide_left_mono) simp_all
  then show ?thesis by (simp add: exp_minus divide_simps)
qed

lemma round32_tiny: "round32 (1 / 33554432) = 1 / 33554432"
  using round32_eval [of "- 25" "1 / 33554432"] by (simp add: powr_neg_numeral)

lemma round32_below_one: "round32 (1 - 1 / 33554432) = 1"
  using round32_eval [of "- 1" "1 - 1 / 33554432"] by (simp add: powr_neg_numeral rne_def)

lemma one_minus_exp20: "round32 (1 - round32 (exp (- 20))) = 1"
proof -
  have e: "0 \<le> round32 (exp (- 20))" "round32 (exp (- 20)) \<le> 1 / 33554432"
    using round32_between [of 0 "exp (- 20)" "1 / 33554432"] exp_minus_20 round32_tiny by simp_all
  have "1 - 1 / 33554432 \<le> 1 - round32 (exp (- 20))" "1 - round32 (exp (- 20)) \<le> 1"
    using e by simp_all
  then have "1 \<le> round32 (1 - round32 (exp (- 20)))" "round32 (1 - round32 (exp (- 20))) \<le> 1"
    using round32_between [of "1 - 1 / 33554432" "1 - round32 (exp (- 20))" 1]
      round32_mono [of "1 - 1 / 33554432" "1 - round32 (exp (- 20))"]
      round32_mono [of "1 - round32 (exp (- 20))" 1]
      round32_below_one round32_consts(1) by simp_all
  then show ?thesis by simp
qed

lemma diodeClip32_at_20: "diodeClip32 (Fin 20) = Fin 1"
proof -
  have e: "expf32 (Fin (- 20)) = Fin (round32 (exp (- 20)))"
      "0 \<le> round32 (exp (- 20))" "round32 (exp (- 20)) \<le> 1"
    using expf32_nonpos [of "- 20"] by simp_all
  show ?thesis
    using e(1) one_minus_unit(1) [OF e(2,3)] one_minus_exp20 by (simp add: diodeClip32_def)
qed

lemma round32_20: "round32 20 = 20"
  using round32_eval [of 4 20] by (simp add: powr_neg_numeral)

lemma diodeClip32_at_minus_10: "diodeClip32 (Fin (- 10)) = Fin (- 0.5)"
proof -
  have d: "rnd (Fin 2 * Fin (- 10)) = Fin (- 20)"
    using round32_minus [of 20] round32_20 by (simp add: rnd_def fround_def)
  have e: "expf32 (Fin (- 20)) = Fin (round32 (exp (- 20)))"
      "0 \<le> round32 (exp (- 20))" "round32 (exp (- 20)) \<le> 1"
    using expf32_nonpos [of "- 20"] by simp_all
  have o: "rnd (Fin 1 - Fin (round32 (exp (- 20)))) = Fin 1"
    using one_minus_unit(1) [OF e(2,3)] one_minus_exp20 by simp
  have h: "rnd (Fin (- 0.5) * Fin 1) = Fin (- 0.5)"
    using round32_neg_half by (simp add: rnd_def fround_def)
  show ?thesis
    unfolding diodeClip32_def by (simp only: d e(1) o h) simp
qed

lemma round32_neg_consts: "round32 (- 108) = - 108" "round32 (- 4) = - 4" "round32 (- 1) = - 1"
  "round32 (- (109 / 8)) = - (109 / 8)"
  using round32_minus [of 108] round32_minus [of 4] round32_minus [of 1] round32_minus [of "109 / 8"]
  by (simp_all add: round32_consts)

lemma square_le_9: assumes "- 3 \<le> x" "x \<le> 3" shows "x * x \<le> (9 :: real)"
proof -
  have "\<bar>x\<bar> * \<bar>x\<bar> \<le> 3 * 3" using assms by (intro mult_mono) simp_all
  then show ?thesis by (simp add: abs_mult_self_eq)
qed

lemma tanh32_parts:
  assumes "- 3 \<le> x" "x \<le> 3"
  shows "0 \<le> round32 (x * x)" "round32 (x * x) \<le> 9"
    "27 \<le> round32 (27 + round32 (x * x))" "round32 (27 + round32 (x * x)) \<le> 36"
    "- 108 \<le> tanh32_num x" "tanh32_num x \<le> 108"
    "0 \<le> round32 (9 * round32 (x * x))" "round32 (9 * round32 (x * x)) \<le> 81"
    "27 \<le> tanh32_den x" "tanh32_den x \<le> 108"
proof -
  have sq: "0 \<le> x * x" "x * x \<le> 9" using square_le_9 [OF assms] by simp_all
  show x2: "0 \<le> round32 (x * x)" "round32 (x * x) \<le> 9"
    using round32_between [OF sq round32_zero round32_consts(3)] by simp_all
  have "27 \<le> 27 + round32 (x * x)" "27 + round32 (x * x) \<le> 36" using x2 by simp_all
  then show a: "27 \<le> round32 (27 + round32 (x * x))" "round32 (27 + round32 (x * x)) \<le> 36"
    using round32_between [of 27 "27 + round32 (x * x)" 36] round32_consts by simp_all
  have "\<bar>x * round32 (27 + round32 (x * x))\<bar> \<le> 3 * 36"
    unfolding abs_mult using assms a by (intro mult_mono) simp_all
  then have "- 108 \<le> x * round32 (27 + round32 (x * x))" "x * round32 (27 + round32 (x * x)) \<le> 108"
    by (simp_all add: abs_le_iff)
  then show "- 108 \<le> tanh32_num x" "tanh32_num x \<le> 108"
    unfolding tanh32_num_def
    using round32_between [of "- 108" "x * round32 (27 + round32 (x * x))" 108]
      round32_consts round32_neg_consts by simp_all
  have "0 \<le> 9 * round32 (x * x)" "9 * round32 (x * x) \<le> 81" using x2 by simp_all
  then show b: "0 \<le> round32 (9 * round32 (x * x))" "round32 (9 * round32 (x * x)) \<le> 81"
    using round32_between [of 0 "9 * round32 (x * x)" 81] round32_consts by simp_all
  have "27 \<le> 27 + round32 (9 * round32 (x * x))" "27 + round32 (9 * round32 (x * x)) \<le> 108"
    using b by simp_all
  then show "27 \<le> tanh32_den x" "tanh32_den x \<le> 108"
    unfolding tanh32_den_def
    using round32_between [of 27 "27 + round32 (9 * round32 (x * x))" 108] round32_consts by simp_all
qed

lemma rnd_small: "\<bar>t\<bar> \<le> 108 \<Longrightarrow> rnd (Fin t) = Fin (round32 t)"
proof -
  assume "\<bar>t\<bar> \<le> 108"
  then have "- 108 \<le> t" "t \<le> 108" by (simp_all add: abs_le_iff)
  then have "- 108 \<le> round32 t" "round32 t \<le> 108"
    using round32_between [of "- 108" t 108] round32_consts round32_neg_consts by simp_all
  then have "\<bar>round32 t\<bar> < 2 ^ 128" by simp
  then show ?thesis by (rule rnd_Fin)
qed

lemma fastTanh32_mid:
  assumes "- 3 \<le> x" "x \<le> 3"
  shows "fastTanh32 (Fin x) = Fin (round32 (tanh32_num x / tanh32_den x))"
proof -
  note p = tanh32_parts [OF assms]
  have sq: "\<bar>x * x\<bar> \<le> 108" using square_le_9 [OF assms] by simp
  have a1: "rnd (Fin x * Fin x) = Fin (round32 (x * x))" using rnd_small [OF sq] by simp
  have a2: "rnd (Fin 27 + Fin (round32 (x * x))) = Fin (round32 (27 + round32 (x * x)))"
    using rnd_small [of "27 + round32 (x * x)"] p(1,2) by simp
  have "\<bar>x * round32 (27 + round32 (x * x))\<bar> \<le> 3 * 36"
    unfolding abs_mult using assms p(3,4) by (intro mult_mono) simp_all
  then have a3: "rnd (Fin x * Fin (round32 (27 + round32 (x * x)))) = Fin (tanh32_num x)"
    using rnd_small [of "x * round32 (27 + round32 (x * x))"] by (simp add: tanh32_num_def)
  have a4: "rnd (Fin 9 * Fin (round32 (x * x))) = Fin (round32 (9 * round32 (x * x)))"
    using rnd_small [of "9 * round32 (x * x)"] p(1,2) by simp
  have a5: "rnd (Fin 27 + Fin (round32 (9 * round32 (x * x)))) = Fin (tanh32_den x)"
    using rnd_small [of "27 + round32 (9 * round32 (x * x))"] p(7,8) by (simp add: tanh32_den_def)
  have dz: "tanh32_den x \<noteq> 0" using p(9) by simp
  have "\<bar>tanh32_num x / tanh32_den x\<bar> \<le> 108 / 27"
    unfolding abs_divide using p(5,6,9) by (intro frac_le) simp_all
  then have a6: "rnd (Fin (tanh32_num x) / Fin (tanh32_den x))
                 = Fin (round32 (tanh32_num x / tanh32_den x))"
    using rnd_small [of "tanh32_num x / tanh32_den x"] dz by simp
  have c: "\<not> Fin 3 < Fin x" "\<not> Fin x < Fin (- 3)" using assms by simp_all
  show ?thesis
    unfolding fastTanh32_def Let_def by (simp only: c if_False a1 a2 a3 a4 a5 a6)
qed

lemma tanh32_num_minus: "tanh32_num (- x) = - tanh32_num x"
  using round32_minus [of "x * round32 (27 + round32 (x * x))"] by (simp add: tanh32_num_def)

lemma tanh32_den_minus: "tanh32_den (- x) = tanh32_den x"
  by (simp add: tanh32_den_def)

lemma tanh32_num_nonneg: "0 \<le> z \<Longrightarrow> z \<le> 3 \<Longrightarrow> 0 \<le> tanh32_num z"
proof -
  assume z: "0 \<le> z" "z \<le> 3"
  then have "0 \<le> z * round32 (27 + round32 (z * z))"
    using tanh32_parts(3) [of z] by simp
  then show ?thesis unfolding tanh32_num_def by (rule round32_nonneg)
qed

lemma round32_abs_error:
  assumes "1 / 4 \<le> t"
  shows "\<bar>round32 t - t\<bar> \<le> t / 16777216"
proof -
  have "(2::real) powr (- 126) \<le> 2 powr (- 2)" by simp
  also have "(2::real) powr (- 2) = 1 / 4" by (simp add: powr_neg_numeral)
  finally have "2 powr (- 126) \<le> \<bar>t\<bar>" using assms by simp
  then have "\<bar>round32 t - t\<bar> \<le> \<bar>t\<bar> / 16777216" by (rule round32_rel_error)
  moreover have "\<bar>t\<bar> = t" using assms by simp
  ultimately show ?thesis by (simp only:)
qed

lemma round32_upper:
  assumes "1 / 4 \<le> t"
  shows "round32 t \<le> (16777217 / 16777216) * t"
proof -
  have "round32 t - t \<le> t / 16777216"
    using round32_abs_error [OF assms] by (rule abs_le_D1)
  moreover have "(16777217 / 16777216) * t = t + t / 16777216" by simp
  ultimately show ?thesis by linarith
qed

lemma round32_lower:
  assumes "1 / 4 \<le> t"
  shows "(16777215 / 16777216) * t \<le> round32 t"
proof -
  have "- (round32 t - t) \<le> t / 16777216"
    using round32_abs_error [OF assms] by (rule abs_le_D2)
  moreover have "(16777215 / 16777216) * t = t - t / 16777216" by simp
  ultimately show ?thesis by linarith
qed

lemma tanh_cubic:
  fixes z :: real
  assumes "0 \<le> z" "z \<le> 3"
  shows "z * (27 + z * z) \<le> 27 + 9 * (z * z)"
proof -
  have "(z - 3) * ((z - 3) * (z - 3)) \<le> 0"
    using assms by (intro mult_nonpos_nonneg) simp_all
  then show ?thesis by (simp add: algebra_simps)
qed

lemma tanh32_small:
  assumes "0 \<le> z" "z \<le> 1 / 2"
  shows "tanh32_num z / tanh32_den z \<le> 1"
proof -
  have z3: "- 3 \<le> z" "z \<le> 3" using assms by simp_all
  have "z * z \<le> (1 / 2) * (1 / 2)" using assms by (intro mult_mono) simp_all
  then have "z * z \<le> 1 / 4" by simp
  then have "round32 (z * z) \<le> 1 / 4"
    using round32_mono [of "z * z" "1 / 4"] round32_consts by simp
  then have "27 + round32 (z * z) \<le> 109 / 4" by simp
  then have a: "round32 (27 + round32 (z * z)) \<le> 109 / 4"
    using round32_mono [of "27 + round32 (z * z)" "109 / 4"] round32_consts by simp
  have "z * round32 (27 + round32 (z * z)) \<le> (1 / 2) * (109 / 4)"
    using assms a tanh32_parts(3) [OF z3] by (intro mult_mono) simp_all
  then have "z * round32 (27 + round32 (z * z)) \<le> 109 / 8" by simp
  then have n: "tanh32_num z \<le> 109 / 8"
    unfolding tanh32_num_def
    using round32_mono [of "z * round32 (27 + round32 (z * z))" "109 / 8"] round32_consts by simp
  have d: "27 \<le> tanh32_den z" using tanh32_parts(9) [OF z3] .
  have "tanh32_num z / tanh32_den z \<le> (109 / 8) / 27"
    using n d tanh32_num_nonneg [OF assms(1) z3(2)] by (intro frac_le) simp_all
  also have "(109 / 8) / 27 \<le> (1 :: real)" by simp
  finally show ?thesis .
qed

lemma round32_c08: "round32 c08 = c08" "round32 (13421774 / 16777216) = 13421774 / 16777216"
  "round32 (13421772 / 16777216) = 13421772 / 16777216"
  using round32_eval [of "- 1" c08] round32_eval [of "- 1" "13421774 / 16777216"]
    round32_eval [of "- 1" "13421772 / 16777216"]
  by (simp_all add: c08_def powr_neg_numeral)

lemma round32_above_c08:
  assumes "c08 < round32 t"
  shows "13421774 / 16777216 \<le> round32 t"
proof (cases "13421774 / 16777216 \<le> t")
  case True
  then show ?thesis using round32_mono [of "13421774 / 16777216" t] round32_c08 by simp
next
  case False
  have lo: "c08 < t"
  proof (rule ccontr)
    assume "\<not> c08 < t"
    then have "round32 t \<le> round32 c08" by (intro round32_mono) simp
    then show False using assms round32_c08 by simp
  qed
  have t: "13421773 / 16777216 < t" "t < 13421774 / 16777216"
    using lo False by (simp_all add: c08_def)
  have "round32 t = 2 powr of_int (- 1 - 23) * of_int (rne (t / 2 powr of_int (- 1 - 23)))"
    using t by (intro round32_eval) (simp_all add: powr_neg_numeral)
  then have r: "round32 t = of_int (rne (t * 16777216)) / 16777216"
    by (simp add: powr_neg_numeral)
  have "\<lfloor>t * 16777216\<rfloor> = 13421773"
    using t by (intro floor_unique) simp_all
  then have "rne (t * 16777216) = 13421773 \<or> rne (t * 16777216) = 13421774"
    using rne_cases [of "t * 16777216"] by simp
  then show ?thesis
    using assms unfolding r by (auto simp add: c08_def)
qed

lemma fold_back:
  assumes "13421774 / 16777216 \<le> m" "m \<le> 5 / 4"
  shows "\<exists>w. rnd (Fin c08 - rnd (rnd (Fin m - Fin c08) * Fin 0.5)) = Fin w
           \<and> 1 / 4 \<le> w \<and> w \<le> 13421772 / 16777216"
proof -
  define ex where "ex = round32 (m - c08)"
  have "1 / 16777216 \<le> m - c08" "m - c08 \<le> 1 / 2" using assms by (simp_all add: c08_def)
  then have ex: "1 / 16777216 \<le> ex" "ex \<le> 1 / 2"
    unfolding ex_def
    using round32_between [of "1 / 16777216" "m - c08" "1 / 2"]
      round32_eval [of "- 24" "1 / 16777216"] round32_consts
    by (simp_all add: powr_neg_numeral)
  have e1: "rnd (Fin m - Fin c08) = Fin ex"
    using rnd_small [of "m - c08"] assms by (simp add: ex_def minus_float_def c08_def)
  define h where "h = round32 (ex * (1 / 2))"
  have "1 / 33554432 \<le> ex * (1 / 2)" "ex * (1 / 2) \<le> 1 / 4" using ex by simp_all
  then have h: "1 / 33554432 \<le> h" "h \<le> 1 / 4"
    unfolding h_def
    using round32_between [of "1 / 33554432" "ex * (1 / 2)" "1 / 4"] round32_tiny round32_consts
    by simp_all
  have e2: "rnd (Fin ex * Fin 0.5) = Fin h"
    using rnd_small [of "ex * (1 / 2)"] ex by (simp add: h_def)
  define w where "w = round32 (c08 - h)"
  have "1 / 4 \<le> c08 - h" "c08 - h \<le> c08 - 1 / 33554432" using h by (simp_all add: c08_def)
  moreover have "round32 (c08 - 1 / 33554432) = 13421772 / 16777216"
    using round32_eval [of "- 1" "c08 - 1 / 33554432"]
    by (simp add: c08_def powr_neg_numeral rne_def)
  ultimately have w: "1 / 4 \<le> w" "w \<le> 13421772 / 16777216"
    unfolding w_def
    using round32_mono [of "1 / 4" "c08 - h"] round32_mono [of "c08 - h" "c08 - 1 / 33554432"]
      round32_consts by simp_all
  have e3: "rnd (Fin c08 - Fin h) = Fin w"
    using rnd_small [of "c08 - h"] h by (simp add: w_def minus_float_def c08_def)
  show ?thesis using e1 e2 e3 w by simp
qed

lemma signed_result:
  assumes "1 / 4 \<le> w" "w \<le> 13421772 / 16777216"
  shows "\<exists>y. rnd (Fin 1 * Fin w) = Fin y \<and> \<bar>y\<bar> \<le> 13421772 / 16777216"
    "\<exists>y. rnd (Fin (- 1) * Fin w) = Fin y \<and> \<bar>y\<bar> \<le> 13421772 / 16777216"
proof -
  have b: "0 \<le> round32 w" "round32 w \<le> 13421772 / 16777216"
    using round32_between [of 0 w "13421772 / 16777216"] assms round32_c08 by simp_all
  have "rnd (Fin w) = Fin (round32 w)" using rnd_small [of w] assms by simp
  then show "\<exists>y. rnd (Fin 1 * Fin w) = Fin y \<and> \<bar>y\<bar> \<le> 13421772 / 16777216"
    using b by simp
  have "rnd (Fin (- w)) = Fin (round32 (- w))" using rnd_small [of "- w"] assms by simp
  then show "\<exists>y. rnd (Fin (- 1) * Fin w) = Fin y \<and> \<bar>y\<bar> \<le> 13421772 / 16777216"
    using b by (simp add: round32_minus)
qed

lemma round32_binade:
  assumes "2 powr of_int e \<le> t" "t < 2 powr (of_int e + 1)" "- 126 \<le> e"
  shows "\<bar>round32 t - t\<bar> \<le> 2 powr of_int (e - 23) / 2"
    and "\<exists>m :: int. round32 t = of_int m * 2 powr of_int (e - 23)"
proof -
  define q :: real where "q = 2 powr of_int (e - 23)"
  have q: "0 < q" by (simp add: q_def)
  have pos: "0 < t" using assms(1) powr_gt_zero [of 2 "of_int e"] by linarith
  have r: "round32 t = q * of_int (rne (t / q))"
    unfolding q_def using assms pos by (intro round32_eval) simp_all
  then show "\<exists>m :: int. round32 t = of_int m * 2 powr of_int (e - 23)"
    unfolding q_def by (intro exI [of _ "rne (t / 2 powr of_int (e - 23))"]) simp
  have "round32 t - t = q * (of_int (rne (t / q)) - t / q)"
    using q by (simp add: r algebra_simps)
  then have "\<bar>round32 t - t\<bar> = q * \<bar>of_int (rne (t / q)) - t / q\<bar>"
    using q by (simp add: abs_mult)
  also have "\<dots> \<le> q * (1 / 2)"
    using q rne_nearest [of "t / q"] by (intro mult_left_mono) simp_all
  finally show "\<bar>round32 t - t\<bar> \<le> 2 powr of_int (e - 23) / 2" by (simp add: q_def)
qed

lemma round32_8_16:
  assumes "8 \<le> t" "t \<le> 9"
  shows "\<bar>round32 t - t\<bar> \<le> 1 / 2097152"
  using round32_binade(1) [of 3 t] assms by (simp add: powr_neg_numeral)

lemma round32_32_64:
  assumes "35 \<le> t" "t \<le> 36"
  shows "\<bar>round32 t - t\<bar> \<le> 1 / 524288"
  using round32_binade(1) [of 5 t] assms by (simp add: powr_neg_numeral)

lemma round32_64_128:
  assumes "72 \<le> t" "t \<le> 108"
  shows "\<bar>round32 t - t\<bar> \<le> 1 / 262144" "\<exists>m :: int. round32 t = of_int m / 131072"
  using round32_binade [of 6 t] assms by (simp_all add: powr_neg_numeral)

lemma round32_more_consts:
  "round32 8 = 8" "round32 35 = 35" "round32 72 = 72" "round32 99 = 99"
  using round32_eval [of 3 8] round32_eval [of 5 35] round32_eval [of 6 72] round32_eval [of 6 99]
  by (simp_all add: powr_neg_numeral)

lemma abs_prod_le:
  fixes a b :: real
  assumes "\<bar>a\<bar> \<le> A" "\<bar>b\<bar> \<le> B"
  shows "a * b \<le> A * B"
proof -
  have "\<bar>a * b\<bar> \<le> A * B" unfolding abs_mult using assms by (intro mult_mono) simp_all
  then show ?thesis by (simp add: abs_le_iff)
qed

lemma tanh32_top:
  assumes "283 / 100 \<le> z" "z \<le> 3"
  shows "tanh32_num z / tanh32_den z \<le> 1 + 1 / 6488064"
proof -
  define s where "s = z * z"
  have "(283 / 100) * (283 / 100) \<le> z * z" using assms by (intro mult_mono) simp_all
  moreover have "z * z \<le> 9" using square_le_9 [of z] assms by simp
  ultimately have s: "8 \<le> s" "s \<le> 9" by (simp_all add: s_def)
  define x2 where "x2 = round32 s"
  define e1 where "e1 = x2 - s"
  have e1: "\<bar>e1\<bar> \<le> 1 / 2097152" unfolding e1_def x2_def using s by (rule round32_8_16)
  have x2: "8 \<le> x2" "x2 \<le> 9"
    unfolding x2_def using round32_between [OF s] round32_more_consts round32_consts by simp_all
  define a where "a = round32 (27 + x2)"
  define e2 where "e2 = a - (27 + x2)"
  have e2: "\<bar>e2\<bar> \<le> 1 / 524288"
    unfolding e2_def a_def using x2 by (intro round32_32_64) simp_all
  have a: "35 \<le> a" "a \<le> 36"
    unfolding a_def
    using round32_between [of 35 "27 + x2" 36] x2 round32_more_consts round32_consts by simp_all
  have "(283 / 100) * 35 \<le> z * a" using assms a by (intro mult_mono) simp_all
  moreover have "z * a \<le> 3 * 36" using assms a by (intro mult_mono) simp_all
  ultimately have za: "72 \<le> z * a" "z * a \<le> 108" by simp_all
  define n where "n = round32 (z * a)"
  define e3 where "e3 = n - z * a"
  have e3: "\<bar>e3\<bar> \<le> 1 / 262144" unfolding e3_def n_def using za by (rule round32_64_128)
  obtain mn :: int where mn: "n = of_int mn / 131072"
    unfolding n_def using round32_64_128(2) [OF za] by blast
  define b where "b = round32 (9 * x2)"
  define e4 where "e4 = b - 9 * x2"
  have e4: "\<bar>e4\<bar> \<le> 1 / 262144"
    unfolding e4_def b_def using x2 by (intro round32_64_128) simp_all
  have b: "72 \<le> b" "b \<le> 81"
    unfolding b_def
    using round32_between [of 72 "9 * x2" 81] x2 round32_more_consts round32_consts by simp_all
  define d where "d = round32 (27 + b)"
  define e5 where "e5 = d - (27 + b)"
  have e5: "\<bar>e5\<bar> \<le> 1 / 262144"
    unfolding e5_def d_def using b by (intro round32_64_128) simp_all
  obtain md :: int where md: "d = of_int md / 131072"
    unfolding d_def using round32_64_128(2) [of "27 + b"] b by auto
  have d: "99 \<le> d"
    unfolding d_def using round32_mono [of 99 "27 + b"] b round32_more_consts by simp
  have ident: "n - d = (z * (27 + s) - (27 + 9 * s)) + (z - 9) * e1 + z * e2 + e3 - e4 - e5"
    by (simp add: e1_def e2_def e3_def e4_def e5_def algebra_simps)
  have c0: "z * (27 + s) - (27 + 9 * s) \<le> 0"
    unfolding s_def using tanh_cubic [of z] assms by simp
  have c1: "(z - 9) * e1 \<le> 7 * (1 / 2097152)"
    using assms e1 by (intro abs_prod_le) simp_all
  have c2: "z * e2 \<le> 3 * (1 / 524288)"
    using assms e2 by (intro abs_prod_le) simp_all
  have c3: "e3 \<le> 1 / 262144" "- e4 \<le> 1 / 262144" "- e5 \<le> 1 / 262144"
    using e3 e4 e5 by (simp_all add: abs_le_iff)
  have "n - d \<le> 7 * (1 / 2097152) + 3 * (1 / 524288) + 3 * (1 / 262144)"
    unfolding ident using c0 c1 c2 c3 by linarith
  also have "\<dots> < 3 / 131072" by simp
  finally have "(of_int mn - of_int md) / 131072 < (3 :: real) / 131072"
    by (simp add: mn md diff_divide_distrib)
  then have "(of_int (mn - md) :: real) < of_int 3" by simp
  then have "mn - md < 3" by (simp only: of_int_less_iff)
  then have "mn - md \<le> 2" by simp
  then have "(of_int (mn - md) :: real) \<le> of_int 2" by (simp only: of_int_le_iff)
  then have nd: "n - d \<le> 1 / 65536" by (simp add: mn md diff_divide_distrib)
  have dpos: "0 < d" using d by simp
  have "n / d = 1 + (n - d) / d" using dpos by (simp add: field_simps)
  also have "(n - d) / d \<le> (1 / 65536) / d"
    using nd dpos by (intro divide_right_mono) simp_all
  also have "(1 / 65536) / d \<le> (1 / 65536) / 99"
    using d by (intro divide_left_mono) simp_all
  finally have "n / d \<le> 1 + 1 / 6488064" by simp
  then show ?thesis
    by (simp add: n_def d_def a_def b_def x2_def s_def tanh32_num_def tanh32_den_def)
qed

lemma round32_top: "round32 (1 + 1 / 6488064) = 1 + 1 / 8388608"
  using round32_eval [of 0 "1 + 1 / 6488064"] by (simp add: powr_neg_numeral rne_def)

lemma tanh32_rel:
  assumes "1 / 2 \<le> z" "z \<le> 3"
  shows "tanh32_num z \<le> (16777217 / 16777216) ^ 3 * (z * (27 + z * z))"
    and "(16777215 / 16777216) ^ 3 * (27 + 9 * (z * z)) \<le> tanh32_den z"
proof -
  define U :: real where "U = 16777217 / 16777216"
  define L :: real where "L = 16777215 / 16777216"
  have U: "1 \<le> U" and L: "0 < L" "L \<le> 1" by (simp_all add: U_def L_def)
  have z3: "- 3 \<le> z" "z \<le> 3" and z0: "0 \<le> z" using assms by simp_all
  note p = tanh32_parts [OF z3]
  define s where "s = z * z"
  have "(1 / 2) * (1 / 2) \<le> z * z" using assms by (intro mult_mono) simp_all
  then have s: "1 / 4 \<le> s" by (simp add: s_def)
  define x2 where "x2 = round32 s"
  have x2u: "x2 \<le> U * s" and x2l: "L * s \<le> x2"
    unfolding x2_def U_def L_def using s by (rule round32_upper, rule round32_lower)
  have x2p: "0 \<le> x2" using p(1) by (simp add: x2_def s_def)
  define a where "a = round32 (27 + x2)"
  have "a \<le> U * (27 + x2)" unfolding a_def U_def using x2p by (intro round32_upper) simp
  also have "\<dots> \<le> U * (27 * U + U * s)"
    using U x2u by (intro mult_left_mono add_mono) simp_all
  finally have au: "a \<le> U * U * (27 + s)" by (simp add: algebra_simps)
  define n where "n = round32 (z * a)"
  have za: "1 / 4 \<le> z * a"
  proof -
    have "(1 / 2) * 27 \<le> z * a" using assms p(3) by (intro mult_mono) (simp_all add: a_def x2_def s_def)
    then show ?thesis by simp
  qed
  have "n \<le> U * (z * a)" unfolding n_def U_def using za by (rule round32_upper)
  also have "\<dots> \<le> U * (z * (U * U * (27 + s)))"
    using U z0 au by (intro mult_left_mono) simp_all
  finally have nu: "n \<le> U * U * U * (z * (27 + s))" by (simp add: algebra_simps)
  define b where "b = round32 (9 * x2)"
  have x2q: "1 / 4 \<le> 9 * x2"
  proof -
    have "L * (1 / 4) \<le> L * s" using L s by (intro mult_left_mono) simp_all
    then have "(16777215 / 16777216) * (1 / 4) \<le> x2" using x2l by (simp add: L_def)
    then show ?thesis by simp
  qed
  have "L * (9 * (L * s)) \<le> L * (9 * x2)" using L x2l by (intro mult_left_mono) simp_all
  also have "\<dots> \<le> b" unfolding b_def L_def using x2q by (rule round32_lower)
  finally have bl: "L * L * (9 * s) \<le> b" by (simp add: algebra_simps)
  have bp: "0 \<le> b" using p(7) by (simp add: b_def x2_def s_def)
  define d where "d = round32 (27 + b)"
  have "L * (27 * (L * L) + L * L * (9 * s)) \<le> L * (27 + b)"
  proof (intro mult_left_mono add_mono bl)
    have "L * L \<le> 1 * 1" using L by (intro mult_mono) simp_all
    then show "27 * (L * L) \<le> 27" by simp
    show "0 \<le> L" using L by simp
  qed
  also have "\<dots> \<le> d" unfolding d_def L_def using bp by (intro round32_lower) simp
  finally have dl: "L * L * L * (27 + 9 * s) \<le> d" by (simp add: algebra_simps)
  show "tanh32_num z \<le> (16777217 / 16777216) ^ 3 * (z * (27 + z * z))"
    using nu by (simp add: n_def a_def x2_def s_def tanh32_num_def U_def power3_eq_cube)
  show "(16777215 / 16777216) ^ 3 * (27 + 9 * (z * z)) \<le> tanh32_den z"
    using dl by (simp add: d_def b_def x2_def s_def tanh32_den_def L_def power3_eq_cube)
qed

lemma tanh32_middle:
  assumes "1 / 2 \<le> z" "z \<le> 283 / 100"
  shows "tanh32_num z / tanh32_den z \<le> 1"
proof -
  define Q where "Q = 27 + 9 * (z * z)"
  define P where "P = z * (27 + z * z)"
  have z3: "z \<le> 3" "- 3 \<le> z" "0 \<le> z" using assms by simp_all
  have "z * z \<le> 9" using square_le_9 [of z] z3 by simp
  then have Q: "27 \<le> Q" "Q \<le> 108" using z3 by (simp_all add: Q_def)
  have "(17 / 100) * ((17 / 100) * (17 / 100)) \<le> (3 - z) * ((3 - z) * (3 - z))"
    using assms by (intro mult_mono) simp_all
  moreover have "P = Q - (3 - z) * ((3 - z) * (3 - z))" by (simp add: P_def Q_def algebra_simps)
  ultimately have P: "P \<le> Q - 4913 / 1000000" by simp
  have n: "tanh32_num z \<le> (16777217 / 16777216) ^ 3 * P"
    unfolding P_def using assms(1) z3(1) by (rule tanh32_rel)
  have d: "(16777215 / 16777216) ^ 3 * Q \<le> tanh32_den z"
    unfolding Q_def using assms(1) z3(1) by (rule tanh32_rel)
  have "(16777217 / 16777216) ^ 3 * P \<le> (16777217 / 16777216) ^ 3 * (Q - 4913 / 1000000)"
    using P by (intro mult_left_mono) simp_all
  also have "\<dots> \<le> (16777215 / 16777216) ^ 3 * Q"
    using Q by (simp add: power3_eq_cube algebra_simps)
  finally have "tanh32_num z \<le> tanh32_den z" using n d by linarith
  moreover have "0 < tanh32_den z" using tanh32_parts(9) [of z] z3 by simp
  ultimately show ?thesis by simp
qed

lemma tanh32_ratio_bound:
  assumes "0 \<le> z" "z \<le> 3"
  shows "0 \<le> tanh32_num z / tanh32_den z" "tanh32_num z / tanh32_den z \<le> 1 + 1 / 6488064"
proof -
  have d: "0 < tanh32_den z" using tanh32_parts(9) [of z] assms by simp
  show "0 \<le> tanh32_num z / tanh32_den z"
    using tanh32_num_nonneg [OF assms] d by simp
  consider "z \<le> 1 / 2" | "1 / 2 \<le> z" "z \<le> 283 / 100" | "283 / 100 \<le> z" by linarith
  then show "tanh32_num z / tanh32_den z \<le> 1 + 1 / 6488064"
  proof cases
    case 1
    then have "tanh32_num z / tanh32_den z \<le> 1" using assms(1) by (intro tanh32_small)
    moreover have "(1 :: real) \<le> 1 + 1 / 6488064" by simp
    ultimately show ?thesis by (rule order_trans)
  next
    case 2
    then have "tanh32_num z / tanh32_den z \<le> 1" by (rule tanh32_middle)
    moreover have "(1 :: real) \<le> 1 + 1 / 6488064" by simp
    ultimately show ?thesis by (rule order_trans)
  next
    case 3
    then show ?thesis using tanh32_top assms(2) by simp
  qed
qed

lemma tanh32_value:
  assumes "- 3 \<le> x" "x \<le> 3"
  shows "\<bar>round32 (tanh32_num x / tanh32_den x)\<bar> = round32 (tanh32_num \<bar>x\<bar> / tanh32_den \<bar>x\<bar>)"
    and "0 \<le> round32 (tanh32_num \<bar>x\<bar> / tanh32_den \<bar>x\<bar>)"
    and "round32 (tanh32_num \<bar>x\<bar> / tanh32_den \<bar>x\<bar>) \<le> 1 + 1 / 8388608"
proof -
  have z: "0 \<le> \<bar>x\<bar>" "\<bar>x\<bar> \<le> 3" using assms by simp_all
  have r: "0 \<le> tanh32_num \<bar>x\<bar> / tanh32_den \<bar>x\<bar>"
    "tanh32_num \<bar>x\<bar> / tanh32_den \<bar>x\<bar> \<le> 1 + 1 / 6488064"
    using tanh32_ratio_bound [OF z] by simp_all
  show nn: "0 \<le> round32 (tanh32_num \<bar>x\<bar> / tanh32_den \<bar>x\<bar>)"
    using r(1) by (rule round32_nonneg)
  show "round32 (tanh32_num \<bar>x\<bar> / tanh32_den \<bar>x\<bar>) \<le> 1 + 1 / 8388608"
    using round32_mono [OF r(2)] round32_top by simp
  show "\<bar>round32 (tanh32_num x / tanh32_den x)\<bar> = round32 (tanh32_num \<bar>x\<bar> / tanh32_den \<bar>x\<bar>)"
  proof (cases "0 \<le> x")
    case True
    then show ?thesis using nn by simp
  next
    case False
    then have x: "\<bar>x\<bar> = - x" by simp
    have "tanh32_num \<bar>x\<bar> / tanh32_den \<bar>x\<bar> = - (tanh32_num x / tanh32_den x)"
      unfolding x by (simp add: tanh32_num_minus tanh32_den_minus)
    then have "round32 (tanh32_num \<bar>x\<bar> / tanh32_den \<bar>x\<bar>) = - round32 (tanh32_num x / tanh32_den x)"
      by (simp add: round32_minus)
    then show ?thesis using nn by simp
  qed
qed

lemma fastTanh32_Fin:
  "\<exists>y. fastTanh32 (Fin x) = Fin y \<and> \<bar>y\<bar> \<le> 1 + 1 / 8388608
       \<and> (c08 < \<bar>y\<bar> \<longrightarrow> 13421774 / 16777216 \<le> \<bar>y\<bar>)"
proof -
  consider "3 < x" | "x < - 3" | "- 3 \<le> x" "x \<le> 3" by linarith
  then show ?thesis
  proof cases
    case 1
    then show ?thesis by (simp add: fastTanh32_def)
  next
    case 2
    then show ?thesis by (simp add: fastTanh32_def)
  next
    case 3
    note v = tanh32_value [OF 3]
    have "fastTanh32 (Fin x) = Fin (round32 (tanh32_num x / tanh32_den x))"
      using 3 by (rule fastTanh32_mid)
    moreover have "\<bar>round32 (tanh32_num x / tanh32_den x)\<bar> \<le> 1 + 1 / 8388608"
      using v(1,3) by simp
    moreover have "c08 < \<bar>round32 (tanh32_num x / tanh32_den x)\<bar> \<longrightarrow>
        13421774 / 16777216 \<le> \<bar>round32 (tanh32_num x / tanh32_den x)\<bar>"
      unfolding v(1) using round32_above_c08 by blast
    ultimately show ?thesis by blast
  qed
qed

lemma fastTanh32_after_double:
  "\<exists>y. fastTanh32 (rnd (Fin x * Fin 2)) = Fin y \<and> \<bar>y\<bar> \<le> 1 + 1 / 8388608
       \<and> (c08 < \<bar>y\<bar> \<longrightarrow> 13421774 / 16777216 \<le> \<bar>y\<bar>)"
proof -
  have "(\<exists>t. rnd (Fin (x * 2)) = Fin t) \<or> rnd (Fin (x * 2)) = PInf \<or> rnd (Fin (x * 2)) = NInf"
    by (simp add: rnd_def fround_def Let_def)
  then consider t where "rnd (Fin x * Fin 2) = Fin t" | "rnd (Fin x * Fin 2) = PInf"
    | "rnd (Fin x * Fin 2) = NInf"
    by auto
  then show ?thesis
  proof cases
    case 1
    then show ?thesis using fastTanh32_Fin [of t] by simp
  next
    case 2
    then show ?thesis by (simp add: fastTanh32_def c08_def)
  next
    case 3
    then show ?thesis by (simp add: fastTanh32_def c08_def)
  qed
qed

lemma aggressiveSat32_bound:
  "\<exists>y. aggressiveSat32 (Fin x) = Fin y \<and> \<bar>y\<bar> \<le> c08
       \<and> (Fin c08 < \<bar>fastTanh32 (rnd (Fin x * Fin 2))\<bar> \<longrightarrow> \<bar>y\<bar> \<le> 13421772 / 16777216)"
proof -
  obtain t where t: "fastTanh32 (rnd (Fin (x * 2))) = Fin t" "\<bar>t\<bar> \<le> 1 + 1 / 8388608"
      "c08 < \<bar>t\<bar> \<longrightarrow> 13421774 / 16777216 \<le> \<bar>t\<bar>"
    using fastTanh32_after_double [of x] by auto
  show ?thesis
  proof (cases "c08 < \<bar>t\<bar>")
    case False
    then have "aggressiveSat32 (Fin x) = Fin t"
      by (simp add: aggressiveSat32_def Let_def t(1))
    then show ?thesis using False by (simp add: t(1))
  next
    case True
    then have m: "13421774 / 16777216 \<le> \<bar>t\<bar>" "\<bar>t\<bar> \<le> 5 / 4" using t(2,3) by simp_all
    obtain w where w: "rnd (Fin c08 - rnd (rnd (Fin \<bar>t\<bar> - Fin c08) * Fin 0.5)) = Fin w"
        "1 / 4 \<le> w" "w \<le> 13421772 / 16777216"
      using fold_back [OF m] by blast
    obtain y where y: "rnd ((if 0 < t then Fin 1 else Fin (- 1)) * Fin w) = Fin y"
        "\<bar>y\<bar> \<le> 13421772 / 16777216"
      using signed_result [OF w(2,3)] by (cases "0 < t") auto
    have "aggressiveSat32 (Fin x) = Fin y"
      using True w(1) y(1) by (simp add: aggressiveSat32_def Let_def t(1))
    moreover have "\<bar>y\<bar> \<le> c08" using y(2) by (simp add: c08_def)
    ultimately show ?thesis using y(2) by simp
  qed
qed


text \<open>
  Claim C4, in single precision. On every finite input \<open>fastTanh\<close> returns a finite
  value of magnitude at most \<open>1 + 1 / 2 ^ 23\<close>, one unit in the last place above \<open>1\<close>,
  and exactly \<open>1\<close> above \<open>3\<close> and \<open>-1\<close> below \<open>-3\<close>; \<open>diodeClip\<close> returns a
  value in the closed interval \<open>[-0.5, 1]\<close>; \<open>aggressiveSat\<close> returns a value of
  magnitude at most \<^verbatim>\<open>0.8f\<close>, and of magnitude at most \<open>0.8\<close> when the fold-back branch
  is taken.
\<close>

theorem saturation_bounded_binary32:
  "(\<exists>y. fastTanh32 (Fin x) = Fin y \<and> \<bar>y\<bar> \<le> 1 + 1 / 2 ^ 23)
   \<and> (3 < x \<longrightarrow> fastTanh32 (Fin x) = Fin 1)
   \<and> (x < - 3 \<longrightarrow> fastTanh32 (Fin x) = Fin (- 1))
   \<and> (\<exists>y. diodeClip32 (Fin x) = Fin y \<and> - 0.5 \<le> y \<and> y \<le> 1)
   \<and> (\<exists>y. aggressiveSat32 (Fin x) = Fin y \<and> \<bar>y\<bar> \<le> c08
          \<and> (Fin c08 < \<bar>fastTanh32 (rnd (Fin x * Fin 2))\<bar> \<longrightarrow> \<bar>y\<bar> \<le> 0.8))"
proof -
  have "\<exists>y. fastTanh32 (Fin x) = Fin y \<and> \<bar>y\<bar> \<le> 1 + 1 / 2 ^ 23"
    using fastTanh32_Fin [of x] by auto
  moreover have "3 < x \<longrightarrow> fastTanh32 (Fin x) = Fin 1"
    by (simp add: fastTanh32_def)
  moreover have "x < - 3 \<longrightarrow> fastTanh32 (Fin x) = Fin (- 1)"
    by (simp add: fastTanh32_def)
  moreover have "\<exists>y. aggressiveSat32 (Fin x) = Fin y \<and> \<bar>y\<bar> \<le> c08
          \<and> (Fin c08 < \<bar>fastTanh32 (rnd (Fin x * Fin 2))\<bar> \<longrightarrow> \<bar>y\<bar> \<le> 0.8)"
  proof -
    obtain y where y: "aggressiveSat32 (Fin x) = Fin y" "\<bar>y\<bar> \<le> c08"
        "Fin c08 < \<bar>fastTanh32 (rnd (Fin x * Fin 2))\<bar> \<longrightarrow> \<bar>y\<bar> \<le> 13421772 / 16777216"
      using aggressiveSat32_bound by blast
    have "Fin c08 < \<bar>fastTanh32 (rnd (Fin x * Fin 2))\<bar> \<longrightarrow> \<bar>y\<bar> \<le> 0.8"
      using y(3) by auto
    then show ?thesis using y(1,2) by blast
  qed
  ultimately show ?thesis using diodeClip32_bound [of x] by blast
qed

theorem saturation_bounded_binary32_witness:
  "(3 :: real) < 4 \<and> fastTanh32 (Fin 4) = Fin 1
   \<and> Fin c08 < \<bar>fastTanh32 (rnd (Fin 4 * Fin 2))\<bar>
   \<and> (\<exists>y. aggressiveSat32 (Fin 4) = Fin y \<and> \<bar>y\<bar> \<le> c08 \<and> \<bar>y\<bar> \<le> 0.8)
   \<and> (\<exists>y. diodeClip32 (Fin 4) = Fin y \<and> - 0.5 \<le> y \<and> y \<le> 1)"
proof -
  have h: "(3 :: real) < 4" by simp
  have "rnd (Fin 4 * Fin 2) = Fin 8"
    using round32_more_consts(1) by (simp add: rnd_def fround_def)
  then have f: "Fin c08 < \<bar>fastTanh32 (rnd (Fin 4 * Fin 2))\<bar>"
    by (simp add: fastTanh32_def c08_def)
  from saturation_bounded_binary32 [of 4] h f show ?thesis by blast
qed


text \<open>
  The bounds of claim C4 as it was stated fail in single precision: \<open>fastTanh\<close>
  returns \<open>1 + 1 / 2 ^ 23\<close> at \<open>12512681 / 2 ^ 22\<close> (the float \<open>2.9832556\<close>), and
  \<open>diodeClip\<close> returns exactly \<open>1\<close> at \<open>20\<close> and exactly \<open>-0.5\<close> at \<open>-10\<close>.
\<close>

theorem saturation_bounds_counterexample:
  "\<not> (\<exists>y. fastTanh32 (Fin (12512681 / 4194304)) = Fin y \<and> \<bar>y\<bar> \<le> 1)
   \<and> \<not> (\<exists>y. diodeClip32 (Fin 20) = Fin y \<and> - 0.5 < y \<and> y < 1)
   \<and> \<not> (\<exists>y. diodeClip32 (Fin (- 10)) = Fin y \<and> - 0.5 < y \<and> y < 1)
   \<and> fastTanh32 (Fin (12512681 / 4194304)) = Fin (1 + 1 / 2 ^ 23)
   \<and> diodeClip32 (Fin 20) = Fin 1
   \<and> diodeClip32 (Fin (- 10)) = Fin (- 0.5)"
  using fastTanh32_above_one diodeClip32_at_20 diodeClip32_at_minus_10 by simp

end
